theory Spec2Isabelle
  imports Main "HOL-Library.Word"
begin

unbundle bit_operations_syntax

section \<open>Bytes, errors and the archive sink\<close>

type_synonym byte = "8 word"

text \<open>Channels and \<open>MuxIn\<close> objects are referred to by identity.\<close>

type_synonym chan = nat
type_synonym addr = nat

text \<open>
  The error values of \<open>multiplexer.go\<close>: \<open>io.ErrShortWrite\<close>, an error returned by the
  sink, and the three \<open>fmt.Errorf\<close> values of \<open>Run\<close>. \<open>ErrStillOpen n\<close> is
  \<open>"Mux ending but selectCases still open %v"\<close> with its argument.
\<close>

datatype error =
    ErrShortWrite
  | SinkError string
  | ErrStillOpen int
  | ErrNonMuxIn
  | ErrNonBytes
  | MarshalError

text \<open>
  \<open>Out\<close> is an \<open>io.WriteCloser\<close>, an interface: what a \<open>Write\<close> returns is up to the
  implementation. The sink is modelled by a script of replies, one per \<open>Write\<close> call:
  \<open>Accept\<close> takes everything offered and returns its length with a nil error,
  \<open>Reply n e\<close> returns the count \<open>n\<close> and the error \<open>e\<close>. When the script is used up the
  sink accepts. Every call is logged with the bytes offered and what was returned.
\<close>

datatype reply = Accept | Reply int "error option"

record sink =
  calls :: "(byte list \<times> int \<times> error option) list"
  sink_closed :: bool
  script :: "reply list"

definition sink_Write :: "sink \<Rightarrow> byte list \<Rightarrow> sink \<times> int \<times> error option" where
  "sink_Write s p =
     (let r = (case script s of
                 [] \<Rightarrow> (int (length p), None)
               | Accept # _ \<Rightarrow> (int (length p), None)
               | Reply n e # _ \<Rightarrow> (n, e))
      in (s\<lparr>calls := calls s @ [(p, fst r, snd r)], script := tl (script s)\<rparr>, fst r, snd r))"

definition sink_Close :: "sink \<Rightarrow> sink" where
  "sink_Close s = s\<lparr>sink_closed := True\<rparr>"

text \<open>The bytes offered to the sink so far, in order.\<close>

definition emitted :: "sink \<Rightarrow> byte list" where
  "emitted s = concat (map fst (calls s))"

definition new_sink :: "reply list \<Rightarrow> sink" where
  "new_sink rs = \<lparr>calls = [], sink_closed = False, script = rs\<rparr>"

section \<open>The framing codec\<close>

record NamespaceHeader =
  Database :: string
  Collection :: string
  EOF :: bool
  CRC :: "64 word"

definition le_bytes32 :: "32 word \<Rightarrow> byte list" where
  "le_bytes32 w = [ucast w, ucast (drop_bit 8 w), ucast (drop_bit 16 w), ucast (drop_bit 24 w)]"

definition le_bytes64 :: "64 word \<Rightarrow> byte list" where
  "le_bytes64 w = map (\<lambda>k. ucast (drop_bit (8 * k) w)) [0..<8]"

definition cstring :: "string \<Rightarrow> byte list" where
  "cstring s = map of_char s @ [0]"

definition bson_string_elem :: "string \<Rightarrow> string \<Rightarrow> byte list" where
  "bson_string_elem k v = [2] @ cstring k @ le_bytes32 (word_of_nat (length v + 1)) @ cstring v"

definition bson_bool_elem :: "string \<Rightarrow> bool \<Rightarrow> byte list" where
  "bson_bool_elem k b = [8] @ cstring k @ [if b then 1 else 0]"

definition bson_int64_elem :: "string \<Rightarrow> 64 word \<Rightarrow> byte list" where
  "bson_int64_elem k v = [18] @ cstring k @ le_bytes64 v"

definition bson_document :: "byte list \<Rightarrow> byte list" where
  "bson_document body = le_bytes32 (word_of_nat (length body + 5)) @ body @ [0]"

text \<open>
  Modelled from the spec: the declaration of \<open>NamespaceHeader\<close> with its field tags
  (\<open>archive.go\<close>) and the encoder \<open>bson.Marshal\<close> are not among the sources. The spec's
  framing codec (4.3) gives a length-prefixed document, little-endian total size first and
  a null byte last, with the fields \<open>db\<close>, \<open>c\<close> for the open header and \<open>db\<close>, \<open>c\<close>,
  \<open>eof\<close>, \<open>crc\<close> in this order for the eof header, absent fields omitted. The result
  type keeps the error that \<open>formatBody\<close> and \<open>formatEOF\<close> test for.
\<close>

definition header_document :: "NamespaceHeader \<Rightarrow> byte list" where
  "header_document h =
     bson_document
       (bson_string_elem ''db'' (Database h) @ bson_string_elem ''c'' (Collection h) @
        (if EOF h then bson_bool_elem ''eof'' True @ bson_int64_elem ''crc'' (CRC h)
         else []))"

definition Marshal :: "NamespaceHeader \<Rightarrow> error + byte list" where
  "Marshal h = Inr (header_document h)"

text \<open>
  Modelled from the spec: \<open>terminatorBytes\<close> is declared in \<open>archive.go\<close>, which is not
  among the sources; the spec's terminator is the four bytes \<open>0x00 0x00 0x00 0x00\<close>.
\<close>

definition terminatorBytes :: "byte list" where
  "terminatorBytes = [0, 0, 0, 0]"

section \<open>CRC-64 with the ECMA polynomial\<close>

text \<open>
  \<open>hash/crc64\<close> of the Go standard library: \<open>MakeTable\<close> builds the table entry of a
  byte by eight shift-and-xor rounds; \<open>update\<close> complements the running value, folds
  the bytes in through the table and complements again. \<open>crc64.New\<close> starts at 0 and
  \<open>Sum64\<close> returns the running value.
\<close>

definition ECMA :: "64 word" where
  "ECMA = 0xC96C5795D7870F42"

definition crc64_round :: "64 word \<Rightarrow> 64 word" where
  "crc64_round c = (if bit c 0 then drop_bit 1 c XOR ECMA else drop_bit 1 c)"

definition crc64_table :: "byte \<Rightarrow> 64 word" where
  "crc64_table i = (crc64_round ^^ 8) (ucast i)"

definition crc64_update :: "64 word \<Rightarrow> byte list \<Rightarrow> 64 word" where
  "crc64_update crc p =
     NOT (foldl (\<lambda>c v. crc64_table (ucast c XOR v) XOR drop_bit 8 c) (NOT crc) p)"

definition crc64_New :: "64 word" where
  "crc64_New = 0"

text \<open>The checksum of a whole byte sequence: a fresh hash, one \<open>Write\<close>, \<open>Sum64\<close>.\<close>

definition crc64_checksum :: "byte list \<Rightarrow> 64 word" where
  "crc64_checksum p = crc64_update crc64_New p"

section \<open>Intents, producer handles and the multiplexer\<close>

record Intent =
  DB :: string
  C :: string

text \<open>
  Modelled from the spec: \<open>Intent.Namespace\<close> (\<open>common/intents\<close>) is not among the
  sources. The spec names a namespace by database and collection joined with a dot
  (\<open>d.c\<close>, \<open>a.x\<close>), as \<open>dumpMetadata\<close> builds its \<open>nsID\<close>.
\<close>

definition Namespace :: "Intent \<Rightarrow> string" where
  "Namespace i = DB i @ ''.'' @ C i"

text \<open>
  \<open>MuxIn\<close>: a channel field is \<open>None\<close> while it is nil. \<open>buf\<close> is a slice, so its
  capacity is kept beside its contents. \<open>hash\<close> is the running value of the CRC-64 digest.
  The field \<open>Mux\<close> is left out: there is one multiplexer.
\<close>

record MuxIn =
  writeChan :: "chan option"
  writeLenChan :: "chan option"
  buf :: "byte list"
  buf_cap :: nat
  hash :: "64 word"
  Intent :: Intent

text \<open>
  \<open>Multiplexer\<close>: \<open>Completed\<close> holds the values published on the completion channel,
  oldest first (\<open>None\<close> is a nil error). \<open>ins\<close> holds pointers, \<open>None\<close> for nil.
\<close>

record Multiplexer =
  Out :: sink
  Control :: chan
  Completed :: "error option list"
  ins :: "addr option list"
  selectCases :: "chan option list"
  currentNamespace :: string

definition NewMultiplexer :: "sink \<Rightarrow> chan \<Rightarrow> Multiplexer" where
  "NewMultiplexer out ctl =
     \<lparr>Out = out, Control = ctl, Completed = [], ins = [None],
      selectCases = [Some ctl], currentNamespace = []\<rparr>"

text \<open>
  The idiom that \<open>formatBody\<close> and \<open>formatEOF\<close> repeat for every framing write:
  \<open>l, err := mux.Out.Write(p)\<close>, return \<open>err\<close> when it is not nil, return
  \<open>io.ErrShortWrite\<close> when \<open>l != len(p)\<close>.
\<close>

definition write_checked :: "Multiplexer \<Rightarrow> byte list \<Rightarrow> Multiplexer \<times> error option" where
  "write_checked m p =
     (case sink_Write (Out m) p of
        (out, l, err) \<Rightarrow>
          (case err of
             Some e \<Rightarrow> (m\<lparr>Out := out\<rparr>, Some e)
           | None \<Rightarrow>
               if l \<noteq> int (length p) then (m\<lparr>Out := out\<rparr>, Some ErrShortWrite)
               else (m\<lparr>Out := out\<rparr>, None)))"

text \<open>
  \<open>formatBody\<close>: \<open>Inl e\<close> is the error returned; \<open>Inr n\<close> is a nil return after \<open>n\<close> was
  sent on the handle's \<open>writeLenChan\<close>.
\<close>

definition formatBody :: "Multiplexer \<Rightarrow> MuxIn \<Rightarrow> byte list \<Rightarrow> Multiplexer \<times> (error + int)" where
  "formatBody m muxIn bsonBytes =
     (case (if Namespace (Intent muxIn) \<noteq> currentNamespace m then
              (case (if currentNamespace m \<noteq> [] then write_checked m terminatorBytes
                     else (m, None)) of
                 (m1, Some e) \<Rightarrow> (m1, Some e)
               | (m1, None) \<Rightarrow>
                   (case Marshal \<lparr>Database = DB (Intent muxIn), Collection = C (Intent muxIn),
                                  EOF = False, CRC = 0\<rparr> of
                      Inl e \<Rightarrow> (m1, Some e)
                    | Inr header \<Rightarrow> write_checked m1 header))
            else (m, None)) of
        (m2, Some e) \<Rightarrow> (m2, Inl e)
      | (m2, None) \<Rightarrow>
          (case sink_Write (Out m2) bsonBytes of
             (out, len, err) \<Rightarrow>
               (case err of
                  Some e \<Rightarrow> (m2\<lparr>Out := out, currentNamespace := Namespace (Intent muxIn)\<rparr>, Inl e)
                | None \<Rightarrow>
                    (m2\<lparr>Out := out, currentNamespace := Namespace (Intent muxIn)\<rparr>, Inr len))))"

definition formatEOF :: "Multiplexer \<Rightarrow> MuxIn \<Rightarrow> Multiplexer \<times> error option" where
  "formatEOF m muxIn =
     (case (if currentNamespace m \<noteq> [] then write_checked m terminatorBytes else (m, None)) of
        (m1, Some e) \<Rightarrow> (m1, Some e)
      | (m1, None) \<Rightarrow>
          (case Marshal \<lparr>Database = DB (Intent muxIn), Collection = C (Intent muxIn),
                         EOF = True, CRC = hash muxIn\<rparr> of
             Inl e \<Rightarrow> (m1, Some e)
           | Inr eofHeader \<Rightarrow>
               (case write_checked m1 eofHeader of
                  (m2, Some e) \<Rightarrow> (m2, Some e)
                | (m2, None) \<Rightarrow> write_checked m2 terminatorBytes)))"

section \<open>The run loop\<close>

text \<open>
  One result of \<open>reflect.Select\<close> is the triple of the index chosen, the value received
  and \<open>notEOF\<close>. \<open>VOther\<close> stands for a value of any other dynamic type, for the two
  type assertions of \<open>Run\<close>.
\<close>

datatype chanval = VMuxIn addr | VBytes "byte list" | VOther

type_synonym selected = "nat \<times> chanval \<times> bool"

text \<open>
  What one pass through the loop body does next: go round again (\<open>Continue\<close>), go round
  again after sending a length on the handle's \<open>writeLenChan\<close> (\<open>Acked\<close>), return from
  \<open>Run\<close> (\<open>Returned\<close>), or panic on \<open>mux.ins[index]\<close> (\<open>Panicked\<close>: an index outside
  \<open>ins\<close> or the nil entry; \<open>reflect.Select\<close> itself only returns indices of
  \<open>selectCases\<close>).
\<close>

datatype loopctl = Continue | Acked int | Returned | Panicked

type_synonym heap = "addr \<Rightarrow> MuxIn"

definition publish :: "Multiplexer \<Rightarrow> error option \<Rightarrow> Multiplexer" where
  "publish m e = m\<lparr>Completed := Completed m @ [e]\<rparr>"

definition Run_iter :: "selected \<Rightarrow> Multiplexer \<times> heap \<Rightarrow> (Multiplexer \<times> heap) \<times> loopctl" where
  "Run_iter sel st =
     (case (sel, st) of ((index, val, notEOF), (m, h)) \<Rightarrow>
        if index = 0 then
          (if \<not> notEOF then
             (let m1 = m\<lparr>Out := sink_Close (Out m)\<rparr> in
                if length (selectCases m1) \<noteq> 1 then
                  ((publish m1 (Some (ErrStillOpen (int (length (selectCases m1))))), h), Returned)
                else ((publish m1 None, h), Returned))
           else
             (case val of
                VMuxIn a \<Rightarrow>
                  ((m\<lparr>selectCases := selectCases m @ [writeChan (h a)],
                      ins := ins m @ [Some a]\<rparr>, h), Continue)
              | _ \<Rightarrow> ((publish m (Some ErrNonMuxIn), h), Returned)))
        else if length (ins m) \<le> index \<or> length (selectCases m) \<le> index then ((m, h), Panicked)
        else
          (case ins m ! index of
             None \<Rightarrow> ((m, h), Panicked)
           | Some a \<Rightarrow>
               if \<not> notEOF then
                 (case formatEOF m (h a) of
                    (m1, Some e) \<Rightarrow> ((publish m1 (Some e), h), Returned)
                  | (m1, None) \<Rightarrow>
                      ((m1\<lparr>currentNamespace := [],
                           selectCases := take index (selectCases m1) @ drop (index + 1) (selectCases m1),
                           ins := take index (ins m1) @ drop (index + 1) (ins m1)\<rparr>, h), Continue))
               else
                 (case val of
                    VBytes bsonBytes \<Rightarrow>
                      (let h1 = h(a := (h a)\<lparr>hash := crc64_update (hash (h a)) bsonBytes\<rparr>) in
                         case formatBody m (h1 a) bsonBytes of
                           (m1, Inl e) \<Rightarrow> ((publish m1 (Some e), h1), Returned)
                         | (m1, Inr n) \<Rightarrow> ((m1, h1), Acked n))
                  | _ \<Rightarrow> ((publish m (Some ErrNonBytes), h), Returned))))"

text \<open>
  The loop of \<open>Run\<close> over the results of \<open>reflect.Select\<close>, in the order they come. It
  stops at the first pass that returns or panics; when the results are used up the loop
  is blocked in \<open>reflect.Select\<close> (\<open>Continue\<close>).
\<close>

fun Run :: "selected list \<Rightarrow> Multiplexer \<times> heap \<Rightarrow> (Multiplexer \<times> heap) \<times> loopctl" where
  "Run [] st = (st, Continue)"
| "Run (sel # sels) st =
     (case Run_iter sel st of
        (st1, Returned) \<Rightarrow> (st1, Returned)
      | (st1, Panicked) \<Rightarrow> (st1, Panicked)
      | (st1, _) \<Rightarrow> Run sels st1)"

section \<open>Producer handles and the multiplexer together\<close>

text \<open>
  The producers and \<open>Run\<close> meet on unbuffered channels, so a send by a producer and the
  pass of the loop that receives it are one step. The world holds the multiplexer, the
  \<open>MuxIn\<close> objects by address, the channels closed so far, the next unused channel
  identity, and whether \<open>Run\<close> is still in its loop. \<open>growslice\<close> is the rule by which
  the Go runtime chooses the capacity of the new array when \<open>append\<close> has to allocate,
  from the old capacity and the length needed; the rule is not part of the language, so
  it is a component of the world.
\<close>

record world =
  mux :: Multiplexer
  objs :: heap
  closedChans :: "chan set"
  nextChan :: chan
  running :: bool
  growslice :: "nat \<Rightarrow> nat \<Rightarrow> nat"

text \<open>
  A call of a producer method returns, panics, or blocks for ever on a channel operation
  that no one will answer.
\<close>

datatype panic =
    IndexOutOfRange
  | CorruptSize int int
  | CorruptTerminator byte int int
  | SendOnClosedChannel
  | CloseOfNilChannel
  | CloseOfClosedChannel

datatype 'a call = Returns 'a | Panics panic | Blocks

text \<open>A \<open>MuxIn\<close> as its owner builds it, before \<open>Open\<close>: only \<open>Intent\<close> is set.\<close>

definition new_MuxIn :: "Intent \<Rightarrow> MuxIn" where
  "new_MuxIn i =
     \<lparr>writeChan = None, writeLenChan = None, buf = [], buf_cap = 0, hash = crc64_New, Intent = i\<rparr>"

text \<open>\<open>NewMultiplexer\<close> followed by \<open>go mux.Run()\<close>; channel 0 is \<open>Control\<close>.\<close>

definition new_world :: "(nat \<Rightarrow> nat \<Rightarrow> nat) \<Rightarrow> sink \<Rightarrow> heap \<Rightarrow> world" where
  "new_world grow out h =
     \<lparr>mux = NewMultiplexer out 0, objs = h, closedChans = {}, nextChan = 1, running = True,
      growslice = grow\<rparr>"

primrec first_index :: "'a \<Rightarrow> 'a list \<Rightarrow> nat option" where
  "first_index x [] = None"
| "first_index x (y # ys) =
     (if x = y then Some 0 else map_option Suc (first_index x ys))"

text \<open>One pass of the loop of \<open>Run\<close> inside the world.\<close>

definition select_result :: "selected \<Rightarrow> world \<Rightarrow> world \<times> loopctl" where
  "select_result sel w =
     (case Run_iter sel (mux w, objs w) of
        ((m, h), ctl) \<Rightarrow>
          (w\<lparr>mux := m, objs := h, running := (ctl \<noteq> Returned \<and> ctl \<noteq> Panicked)\<rparr>, ctl))"

text \<open>
  A send \<open>c <- v\<close> by a producer: it blocks for ever on a nil channel, panics on a closed
  one, and blocks for ever when \<open>Run\<close> has left its loop or does not select on \<open>c\<close>.
  Otherwise \<open>reflect.Select\<close> returns the case of \<open>c\<close> with \<open>v\<close>, and the loop body runs.
\<close>

definition send :: "chan option \<Rightarrow> chanval \<Rightarrow> world \<Rightarrow> world \<times> loopctl call" where
  "send c v w =
     (case c of
        None \<Rightarrow> (w, Blocks)
      | Some ch \<Rightarrow>
          if ch \<in> closedChans w then (w, Panics SendOnClosedChannel)
          else if \<not> running w then (w, Blocks)
          else
            (case first_index (Some ch) (selectCases (mux w)) of
               None \<Rightarrow> (w, Blocks)
             | Some i \<Rightarrow>
                 (case select_result (i, v, True) w of (w1, ctl) \<Rightarrow> (w1, Returns ctl))))"

text \<open>
  The handshake \<open>muxIn.writeChan <- b; length := <-muxIn.writeLenChan\<close>. The receive
  gets the length that \<open>formatBody\<close> sends; when the loop body ends without sending one,
  the producer waits for ever.
\<close>

definition handshake :: "addr \<Rightarrow> byte list \<Rightarrow> world \<Rightarrow> world \<times> int call" where
  "handshake a b w =
     (case send (writeChan (objs w a)) (VBytes b) w of
        (w1, Returns (Acked n)) \<Rightarrow> (w1, Returns n)
      | (w1, Returns _) \<Rightarrow> (w1, Blocks)
      | (w1, Panics p) \<Rightarrow> (w1, Panics p)
      | (w1, Blocks) \<Rightarrow> (w1, Blocks))"

definition set_obj :: "addr \<Rightarrow> MuxIn \<Rightarrow> world \<Rightarrow> world" where
  "set_obj a x w = w\<lparr>objs := (objs w)(a := x)\<rparr>"

text \<open>
  \<open>Open\<close>. \<open>bufferSize\<close> is \<open>db.MaxBSONSize\<close>, a constant of \<open>common/db\<close> that is not
  among the sources: it is the parameter \<open>maxBSONSize\<close>.
\<close>

definition Open :: "nat \<Rightarrow> addr \<Rightarrow> world \<Rightarrow> world \<times> error option call" where
  "Open maxBSONSize a w =
     (let w1 = set_obj a ((objs w a)\<lparr>writeChan := Some (nextChan w),
                                      writeLenChan := Some (nextChan w + 1),
                                      buf := [], buf_cap := maxBSONSize,
                                      hash := crc64_New\<rparr>)
                 (w\<lparr>nextChan := nextChan w + 2\<rparr>)
      in case send (Some (Control (mux w1))) (VMuxIn a) w1 of
           (w2, Returns _) \<Rightarrow> (w2, Returns None)
         | (w2, Panics p) \<Rightarrow> (w2, Panics p)
         | (w2, Blocks) \<Rightarrow> (w2, Blocks))"

definition bufferWrites :: bool where
  "bufferWrites = True"

text \<open>The little-endian length prefix that \<open>Write\<close> reads; \<open>int\<close> has 64 bits.\<close>

definition declared_size :: "byte list \<Rightarrow> int" where
  "declared_size b =
     uint ((push_bit 0 (ucast (b ! 0)) :: 32 word) OR push_bit 8 (ucast (b ! 1)) OR
           push_bit 16 (ucast (b ! 2)) OR push_bit 24 (ucast (b ! 3)))"

text \<open>
  \<open>append(muxIn.buf, b...)\<close>: within the capacity the slice grows in place and keeps its
  capacity; beyond it a new array is allocated, with the capacity that the runtime's rule
  gives, which the language promises to be sufficient.
\<close>

definition append_buf :: "addr \<Rightarrow> byte list \<Rightarrow> world \<Rightarrow> world" where
  "append_buf a b w =
     set_obj a ((objs w a)\<lparr>buf := buf (objs w a) @ b,
                            buf_cap :=
                              (if length (buf (objs w a) @ b) \<le> buf_cap (objs w a)
                               then buf_cap (objs w a)
                               else max (growslice w (buf_cap (objs w a))
                                           (length (buf (objs w a) @ b)))
                                        (length (buf (objs w a) @ b)))\<rparr>) w"

text \<open>\<open>muxIn.buf = muxIn.buf[:0]\<close> keeps the array; \<open>muxIn.buf = nil\<close> drops it.\<close>

definition truncate_buf :: "addr \<Rightarrow> world \<Rightarrow> world" where
  "truncate_buf a w = set_obj a ((objs w a)\<lparr>buf := []\<rparr>) w"

definition nil_buf :: "addr \<Rightarrow> world \<Rightarrow> world" where
  "nil_buf a w = set_obj a ((objs w a)\<lparr>buf := [], buf_cap := 0\<rparr>) w"

definition Write :: "addr \<Rightarrow> byte list \<Rightarrow> world \<Rightarrow> world \<times> (int \<times> error option) call" where
  "Write a b w =
     (if length b < 4 then (w, Panics IndexOutOfRange)
      else
        (let size = declared_size b in
           if int (length b) < size then (w, Panics (CorruptSize size (int (length b))))
           else if size - 1 < 0 then (w, Panics IndexOutOfRange)
           else if b ! nat (size - 1) \<noteq> 0 then
             (w, Panics (CorruptTerminator (b ! nat (size - 1)) size (int (length b))))
           else if bufferWrites then
             (if length (buf (objs w a)) + length b > buf_cap (objs w a) then
                (case handshake a (buf (objs w a)) w of
                   (w1, Returns len) \<Rightarrow>
                     if len \<noteq> int (length (buf (objs w1 a))) then
                       (w1, Returns (0, Some ErrShortWrite))
                     else (append_buf a b (truncate_buf a w1), Returns (int (length b), None))
                 | (w1, Panics p) \<Rightarrow> (w1, Panics p)
                 | (w1, Blocks) \<Rightarrow> (w1, Blocks))
              else (append_buf a b w, Returns (int (length b), None)))
           else
             (case handshake a b w of
                (w1, Returns len) \<Rightarrow>
                  if len \<noteq> int (length b) then (w1, Returns (0, Some ErrShortWrite))
                  else (w1, Returns (int (length b), None))
              | (w1, Panics p) \<Rightarrow> (w1, Panics p)
              | (w1, Blocks) \<Rightarrow> (w1, Blocks))))"

text \<open>\<open>close(c)\<close> panics on a nil channel and on a closed one.\<close>

definition close_chan :: "chan option \<Rightarrow> world \<Rightarrow> world \<times> unit call" where
  "close_chan c w =
     (case c of
        None \<Rightarrow> (w, Panics CloseOfNilChannel)
      | Some ch \<Rightarrow>
          if ch \<in> closedChans w then (w, Panics CloseOfClosedChannel)
          else (w\<lparr>closedChans := insert ch (closedChans w)\<rparr>, Returns ()))"

text \<open>The last two statements of \<open>Close\<close>.\<close>

definition close_both :: "addr \<Rightarrow> world \<Rightarrow> world \<times> error option call" where
  "close_both a w =
     (case close_chan (writeChan (objs w a)) w of
        (w1, Returns _) \<Rightarrow>
          (case close_chan (writeLenChan (objs w1 a)) w1 of
             (w2, Returns _) \<Rightarrow> (w2, Returns None)
           | (w2, Panics p) \<Rightarrow> (w2, Panics p)
           | (w2, Blocks) \<Rightarrow> (w2, Blocks))
      | (w1, Panics p) \<Rightarrow> (w1, Panics p)
      | (w1, Blocks) \<Rightarrow> (w1, Blocks))"

definition Close :: "addr \<Rightarrow> world \<Rightarrow> world \<times> error option call" where
  "Close a w =
     (if bufferWrites then
        (case handshake a (buf (objs w a)) w of
           (w1, Returns len) \<Rightarrow>
             if len \<noteq> int (length (buf (objs w1 a))) then (w1, Returns (Some ErrShortWrite))
             else close_both a (nil_buf a w1)
         | (w1, Panics p) \<Rightarrow> (w1, Panics p)
         | (w1, Blocks) \<Rightarrow> (w1, Blocks))
      else close_both a w)"

text \<open>
  What \<open>Run\<close> does without a producer's send: \<open>reflect.Select\<close> returns the case of a
  closed channel with \<open>notEOF\<close> false. The owner of the multiplexer closes \<open>Control\<close>.
\<close>

definition observe_EOF :: "nat \<Rightarrow> world \<Rightarrow> world" where
  "observe_EOF i w =
     (if running w \<and> i < length (selectCases (mux w)) \<and>
         (case selectCases (mux w) ! i of None \<Rightarrow> False | Some ch \<Rightarrow> ch \<in> closedChans w)
      then fst (select_result (i, VOther, False) w) else w)"

definition close_Control :: "world \<Rightarrow> world" where
  "close_Control w = w\<lparr>closedChans := insert (Control (mux w)) (closedChans w)\<rparr>"

text \<open>
  The record bytes that arrive on the channel \<open>ch\<close> while \<open>Run\<close> works through the
  select results \<open>sels\<close>, in the order received: a receive belongs to \<open>ch\<close> when the
  case selected is the case of \<open>ch\<close>. For the data channel of a handle these are the bytes
  that the handle delivered.
\<close>

fun delivered :: "chan \<Rightarrow> selected list \<Rightarrow> Multiplexer \<times> heap \<Rightarrow> byte list" where
  "delivered ch [] st = []"
| "delivered ch (sel # sels) st =
     (case sel of (index, val, notEOF) \<Rightarrow>
        (if index \<noteq> 0 \<and> notEOF \<and> index < length (selectCases (fst st)) \<and>
            selectCases (fst st) ! index = Some ch
         then (case val of VBytes b \<Rightarrow> b | _ \<Rightarrow> []) else [])) @
     (case Run_iter sel st of
        (st1, Returned) \<Rightarrow> []
      | (st1, Panicked) \<Rightarrow> []
      | (st1, _) \<Rightarrow> delivered ch sels st1)"

text \<open>
  The bytes that \<open>Run\<close> writes into the hash of the handle at address \<open>a\<close> on the way: those
  of the receives at an index where \<open>ins\<close> holds \<open>a\<close>.
\<close>

fun hashed :: "addr \<Rightarrow> selected list \<Rightarrow> Multiplexer \<times> heap \<Rightarrow> byte list" where
  "hashed a [] st = []"
| "hashed a (sel # sels) st =
     (case sel of (index, val, notEOF) \<Rightarrow>
        (if index \<noteq> 0 \<and> notEOF \<and> index < length (ins (fst st)) \<and>
            index < length (selectCases (fst st)) \<and> ins (fst st) ! index = Some a
         then (case val of VBytes b \<Rightarrow> b | _ \<Rightarrow> []) else [])) @
     (case Run_iter sel st of
        (st1, Returned) \<Rightarrow> []
      | (st1, Panicked) \<Rightarrow> []
      | (st1, _) \<Rightarrow> hashed a sels st1)"

text \<open>
  \<open>ins\<close> and \<open>selectCases\<close> are correlating slices: they have the same length, and where
  \<open>ins\<close> holds a handle, \<open>selectCases\<close> holds the data channel of that handle.
\<close>

fun entry_ok :: "heap \<Rightarrow> addr option \<Rightarrow> chan option \<Rightarrow> bool" where
  "entry_ok h None c = True"
| "entry_ok h (Some x) c = (c = writeChan (h x))"

definition aligned :: "Multiplexer \<times> heap \<Rightarrow> bool" where
  "aligned st = list_all2 (entry_ok (snd st)) (ins (fst st)) (selectCases (fst st))"

text \<open>
  What a sink whose script stands at \<open>rs\<close> returns for a write of \<open>p\<close>, and the number of
  framing writes that \<open>formatBody\<close> makes for a handle before it writes the record bytes.
\<close>

fun reply_to :: "reply list \<Rightarrow> byte list \<Rightarrow> int \<times> error option" where
  "reply_to [] p = (int (length p), None)"
| "reply_to (Accept # rs) p = (int (length p), None)"
| "reply_to (Reply n e # rs) p = (n, e)"

definition framing_writes :: "Multiplexer \<Rightarrow> MuxIn \<Rightarrow> nat" where
  "framing_writes m muxIn =
     (if Namespace (Intent muxIn) \<noteq> currentNamespace m
      then (if currentNamespace m \<noteq> [] then 2 else 1) else 0)"

section \<open>The metadata file of a collection\<close>

text \<open>
  BSON values as \<open>dumpMetadata\<close> meets them: a \<open>bson.D\<close> is an ordered list of named
  values; any other value is kept by its printed form.
\<close>

datatype bson = BD "(string \<times> bson) list" | BOther string

text \<open>
  Values of type \<open>interface{}\<close> held by \<open>Metadata\<close>: the nil interface, a
  \<open>bsonutil.MarshalD\<close> (an ordered document), or another value.
\<close>

datatype goval = GoNil | MarshalD "(string \<times> goval) list" | GoOther string

text \<open>\<open>Metadata\<close>: \<open>Indexes\<close> is a slice, \<open>None\<close> while it is nil.\<close>

record Metadata =
  Options :: goval
  Indexes :: "goval list option"

text \<open>
  JSON text by its structure. \<open>JValue v\<close> is the encoding of the Go value \<open>v\<close> by its
  own marshaller, which is not looked into.
\<close>

datatype json = JNull | JValue goval | JArray "json list" | JObject "(string \<times> json) list"

text \<open>
  \<open>json.Marshal\<close> of the standard library on a \<open>Metadata\<close>, following the field tags:
  \<open>options,omitempty\<close> leaves the key out when the interface value is nil; \<open>indexes\<close> is
  always written, \<open>null\<close> for a nil slice and an array otherwise.
\<close>

definition json_Marshal :: "Metadata \<Rightarrow> json" where
  "json_Marshal meta =
     JObject
       ((if Options meta = GoNil then [] else [(''options'', JValue (Options meta))]) @
        [(''indexes'', (case Indexes meta of None \<Rightarrow> JNull | Some xs \<Rightarrow> JArray (map JValue xs)))])"

text \<open>
  What \<open>dumpMetadata\<close> gets from its surroundings. The functions \<open>db.GetCollectionOptions\<close>,
  \<open>db.GetIndexes\<close>, \<open>bsonutil.FindValueByKey\<close> and \<open>bsonutil.ConvertBSONValueToJSON\<close>
  are not among the sources: their results are parameters. An error is its message.
  \<open>indexDocs\<close> are the documents that \<open>indexesIter.Next\<close> yields and \<open>iterErr\<close> is
  \<open>indexesIter.Err()\<close> after them.
\<close>

record dump_env =
  OpenMetadata :: "string option"
  GetSession :: "string option"
  GetCollectionOptions :: "string + (string \<times> bson) list option"
  FindValueByKey :: "string \<Rightarrow> (string \<times> bson) list \<Rightarrow> string + bson"
  ConvertBSONValueToJSON :: "bson \<Rightarrow> string + goval"
  GetIndexes :: "string option"
  indexDocs :: "(string \<times> bson) list list"
  iterErr :: "string option"
  marshalErr :: "string option"
  writeErr :: "string option"
  flushErr :: "string option"

text \<open>The loop over the index cursor: \<open>Inl\<close> is the return from inside the loop.\<close>

fun read_indexes ::
  "(bson \<Rightarrow> string + goval) \<Rightarrow> (string \<times> bson) list list \<Rightarrow> Metadata \<Rightarrow> string + Metadata" where
  "read_indexes conv [] meta = Inr meta"
| "read_indexes conv (indexOpts # rest) meta =
     (case conv (BD indexOpts) of
        Inl err \<Rightarrow> Inl ''error converting index''
      | Inr convertedIndex \<Rightarrow>
          read_indexes conv rest
            (meta\<lparr>Indexes := Some ((case Indexes meta of None \<Rightarrow> [] | Some xs \<Rightarrow> xs) @ [convertedIndex])\<rparr>))"

text \<open>
  \<open>dumpMetadata\<close>: the error returned (\<open>None\<close> for nil) and the JSON handed to
  \<open>w.Write\<close>, if the call gets that far.
\<close>

definition dumpMetadata :: "dump_env \<Rightarrow> string option \<times> json option" where
  "dumpMetadata env =
     (case OpenMetadata env of
        Some err \<Rightarrow> (Some err, None)
      | None \<Rightarrow>
     (let meta = \<lparr>Options = GoNil, Indexes = Some []\<rparr> in
      case GetSession env of
        Some err \<Rightarrow> (Some err, None)
      | None \<Rightarrow>
     (case GetCollectionOptions env of
        Inl err \<Rightarrow> (Some ''failed to get collection options'', None)
      | Inr None \<Rightarrow> (None, None)
      | Inr (Some collectionInfo) \<Rightarrow>
     (case (case FindValueByKey env ''options'' collectionInfo of
              Inl err \<Rightarrow> Inr (meta\<lparr>Options := MarshalD []\<rparr>)
            | Inr (BD optsD) \<Rightarrow>
                (case ConvertBSONValueToJSON env (BD optsD) of
                   Inl err \<Rightarrow> Inl ''error converting collection options to JSON''
                 | Inr v \<Rightarrow> Inr (meta\<lparr>Options := v\<rparr>))
            | Inr opts \<Rightarrow> Inl ''collection options contains invalid data'') of
        Inl err \<Rightarrow> (Some err, None)
      | Inr meta1 \<Rightarrow>
     (case GetIndexes env of
        Some err \<Rightarrow> (Some err, None)
      | None \<Rightarrow>
     (case read_indexes (ConvertBSONValueToJSON env) (indexDocs env) meta1 of
        Inl err \<Rightarrow> (Some err, None)
      | Inr meta2 \<Rightarrow>
     (case iterErr env of
        Some err \<Rightarrow> (Some ''error getting indexes for collection'', None)
      | None \<Rightarrow>
     (case marshalErr env of
        Some err \<Rightarrow> (Some ''error marshalling metadata json for collection'', None)
      | None \<Rightarrow>
     (case writeErr env of
        Some err \<Rightarrow> (Some ''error writing metadata for collection to disk'', Some (json_Marshal meta2))
      | None \<Rightarrow>
     (case flushErr env of
        Some err \<Rightarrow> (Some ''error writing metadata for collection to disk'', Some (json_Marshal meta2))
      | None \<Rightarrow> (None, Some (json_Marshal meta2))))))))))))"

text \<open>A lookup by key for the examples: the value of the first element with that name.\<close>

fun first_value :: "string \<Rightarrow> (string \<times> bson) list \<Rightarrow> string + bson" where
  "first_value k [] = Inl ''no such field''"
| "first_value k ((name, v) # rest) = (if name = k then Inr v else first_value k rest)"

text \<open>A converter for the examples: documents become \<open>MarshalD\<close>, field by field.\<close>

fun to_goval :: "bson \<Rightarrow> goval" where
  "to_goval (BD kvs) = MarshalD (map (\<lambda>kv. (fst kv, to_goval (snd kv))) kvs)"
| "to_goval (BOther s) = GoOther s"

text \<open>A server that answers every call, for a collection with the given description and indexes.\<close>

definition healthy_env :: "(string \<times> bson) list \<Rightarrow> (string \<times> bson) list list \<Rightarrow> dump_env" where
  "healthy_env collectionInfo indexes =
     \<lparr>OpenMetadata = None, GetSession = None, GetCollectionOptions = Inr (Some collectionInfo),
      FindValueByKey = first_value, ConvertBSONValueToJSON = (\<lambda>v. Inr (to_goval v)),
      GetIndexes = None, indexDocs = indexes, iterErr = None, marshalErr = None,
      writeErr = None, flushErr = None\<rparr>"

section \<open>Scenarios\<close>

text \<open>
  A multiplexer on a sink with the given script, and handles for the namespace \<open>d.c\<close> at
  every address; a new array gets twice the old capacity, or what is needed if that is
  more.
\<close>

definition dc_world :: "reply list \<Rightarrow> world" where
  "dc_world rs =
     new_world (\<lambda>old needed. 2 * old) (new_sink rs) (\<lambda>_. new_MuxIn \<lparr>DB = ''d'', C = ''c''\<rparr>)"

text \<open>The handle at address 0 has been opened; the sink accepts everything.\<close>

definition one_open_world :: world where
  "one_open_world = fst (Open 16 0 (dc_world []))"

text \<open>
  The handle at address 0 has been opened with a capacity of 8 bytes and holds one
  record of 5 bytes in its buffer. The sink will accept the next write and return the
  count 2 with a nil error for the one after.
\<close>

definition short_ack_world :: world where
  "short_ack_world =
     fst (Write 0 [5, 0, 0, 0, 0] (fst (Open 8 0 (dc_world [Accept, Reply 2 None]))))"

text \<open>The same with a sink that accepts everything.\<close>

definition buffered_world :: world where
  "buffered_world = fst (Write 0 [5, 0, 0, 0, 0] (fst (Open 8 0 (dc_world []))))"

text \<open>
  The same with a sink that will accept the next write and fail on the one after,
  returning 2 and an error of its own.
\<close>

definition sink_error_world :: world where
  "sink_error_world =
     fst (Write 0 [5, 0, 0, 0, 0]
            (fst (Open 8 0 (dc_world [Accept, Reply 2 (Some (SinkError ''disk full''))]))))"

text \<open>The handle has been closed, and nothing else has happened since.\<close>

definition closed_handle_world :: world where
  "closed_handle_world = fst (Close 0 buffered_world)"

text \<open>\<open>Control\<close> was closed with the handle still open, and \<open>Run\<close> has returned.\<close>

definition stopped_world :: world where
  "stopped_world = observe_EOF 0 (close_Control buffered_world)"

text \<open>
  Two handles, \<open>a.x\<close> at address 0 with the data channel 1 and \<open>b.y\<close> at address 1 with
  the data channel 3, and the select results of a run: both register, \<open>b.y\<close> sends a
  record (index 2), \<open>a.x\<close> sends one (index 1) and is closed (index 1), and \<open>b.y\<close>, now
  at index 1, sends another.
\<close>

definition two_handles :: heap where
  "two_handles =
     (\<lambda>_. new_MuxIn \<lparr>DB = ''b'', C = ''y''\<rparr>)
       (0 := (new_MuxIn \<lparr>DB = ''a'', C = ''x''\<rparr>)\<lparr>writeChan := Some 1, writeLenChan := Some 2\<rparr>,
        1 := (new_MuxIn \<lparr>DB = ''b'', C = ''y''\<rparr>)\<lparr>writeChan := Some 3, writeLenChan := Some 4\<rparr>)"

definition interleaved :: "selected list" where
  "interleaved =
     [(0, VMuxIn 0, True), (0, VMuxIn 1, True),
      (2, VBytes [6, 0, 0, 0, 9, 0], True), (1, VBytes [5, 0, 0, 0, 0], True),
      (1, VOther, False), (1, VBytes [7, 0, 0, 0, 1, 2, 0], True)]"

text \<open>Where that run stands when the six results have been worked through.\<close>

definition interleaved_state :: "Multiplexer \<times> heap" where
  "interleaved_state = fst (Run interleaved (NewMultiplexer (new_sink []) 0, two_handles))"

text \<open>
  A collection that \<open>listCollections\<close> describes by its name alone, and one with options
  and the index on \<open>_id\<close>.
\<close>

definition plain_collection :: dump_env where
  "plain_collection = healthy_env [(''name'', BOther ''c'')] []"

definition capped_collection :: dump_env where
  "capped_collection =
     healthy_env [(''name'', BOther ''c''), (''options'', BD [(''capped'', BOther ''true'')])]
       [[(''v'', BOther ''1''), (''name'', BOther ''_id_'')]]"

section \<open>Helper facts\<close>

lemmas world_defs = Open_def Close_def Write_def handshake_def send_def select_result_def
  observe_EOF_def close_Control_def close_both_def close_chan_def set_obj_def nil_buf_def
  truncate_buf_def append_buf_def new_world_def new_MuxIn_def NewMultiplexer_def new_sink_def
  bufferWrites_def

lemmas mux_defs = Run_iter_def formatBody_def formatEOF_def write_checked_def sink_Write_def
  sink_Close_def publish_def Marshal_def Namespace_def

lemmas scenario_defs = dc_world_def one_open_world_def short_ack_world_def buffered_world_def
  sink_error_world_def closed_handle_world_def stopped_world_def

lemma declared_size_5 [simp]: "declared_size [5, 0, 0, 0, 0] = 5"
  by (simp add: declared_size_def)

lemma declared_size_0 [simp]: "declared_size [0, 0, 0, 0, 7] = 0"
  by (simp add: declared_size_def)

lemma Namespace_not_empty: "Namespace i \<noteq> []"
  by (simp add: Namespace_def)

lemma first_index_snoc:
  "x \<notin> set xs \<Longrightarrow> first_index x (xs @ [x]) = Some (length xs)"
  by (induction xs) auto

lemma first_index_hd:
  "xs \<noteq> [] \<Longrightarrow> hd xs = x \<Longrightarrow> first_index x xs = Some 0"
  by (cases xs) simp_all

lemma crc64_update_Nil: "crc64_update c [] = c"
  by (simp add: crc64_update_def)

text \<open>
  Chunking does not matter to the digest: two writes give what one write of the
  concatenation gives.
\<close>

lemma crc64_update_append: "crc64_update (crc64_update c xs) ys = crc64_update c (xs @ ys)"
  by (simp add: crc64_update_def)

text \<open>A pass of the loop changes nothing of a handle but its hash.\<close>

lemma Run_iter_keeps:
  assumes "Run_iter sel (m, h) = ((m', h'), ctl)"
  shows "buf (h' a) = buf (h a) \<and> buf_cap (h' a) = buf_cap (h a) \<and>
         writeChan (h' a) = writeChan (h a) \<and> writeLenChan (h' a) = writeLenChan (h a) \<and>
         Intent (h' a) = Intent (h a)"
proof -
  obtain index val notEOF where sel: "sel = (index, val, notEOF)" by (cases sel)
  show ?thesis using assms unfolding sel Run_iter_def
    by (auto simp add: Let_def split: if_splits option.splits prod.splits chanval.splits sum.splits)
qed

lemma select_result_keeps:
  assumes "select_result sel w = (w2, c)"
  shows "buf (objs w2 x) = buf (objs w x) \<and> buf_cap (objs w2 x) = buf_cap (objs w x) \<and>
         closedChans w2 = closedChans w \<and> nextChan w2 = nextChan w"
  using assms unfolding select_result_def
  by (auto split: prod.splits dest: Run_iter_keeps)

lemma handshake_keeps:
  assumes "handshake a b w = (w1, r)"
  shows "buf (objs w1 x) = buf (objs w x) \<and> buf_cap (objs w1 x) = buf_cap (objs w x) \<and>
         closedChans w1 = closedChans w \<and> nextChan w1 = nextChan w"
  using assms unfolding handshake_def send_def
  by (auto split: option.splits if_splits prod.splits call.splits loopctl.splits
      dest: select_result_keeps)

text \<open>The hash of a handle after one pass: the bytes of a data receive for it are added.\<close>

lemma Run_iter_hash:
  assumes "Run_iter (index, val, notEOF) (m, h) = ((m', h'), ctl)"
  shows "hash (h' a) = crc64_update (hash (h a))
           (if index \<noteq> 0 \<and> notEOF \<and> index < length (ins m) \<and>
               index < length (selectCases m) \<and> ins m ! index = Some a
            then (case val of VBytes b \<Rightarrow> b | _ \<Rightarrow> []) else [])"
  using assms unfolding Run_iter_def
  by (auto simp add: Let_def crc64_update_Nil
      split: if_splits option.splits prod.splits chanval.splits sum.splits)

lemma Run_hash:
  "Run sels st = (st', ctl) \<Longrightarrow>
     hash (snd st' a) = crc64_update (hash (snd st a)) (hashed a sels st)"
proof (induction sels arbitrary: st)
  case Nil
  then show ?case by (auto simp add: crc64_update_Nil)
next
  case (Cons sel sels)
  obtain index val notEOF where sel: "sel = (index, val, notEOF)" by (cases sel)
  obtain m h where st: "st = (m, h)" by (cases st)
  obtain m1 h1 c1 where it: "Run_iter (index, val, notEOF) (m, h) = ((m1, h1), c1)"
    by (metis prod.exhaust)
  note first = Run_iter_hash[OF it, of a]
  show ?case
  proof (cases "c1 = Returned \<or> c1 = Panicked")
    case True
    with Cons.prems it have "st' = (m1, h1)" by (auto simp add: sel st)
    with True it first show ?thesis by (auto simp add: sel st)
  next
    case False
    with Cons.prems it have "Run sels (m1, h1) = (st', ctl)"
      by (cases c1) (auto simp add: sel st)
    from Cons.IH[OF this]
    have "hash (snd st' a) = crc64_update (hash (h1 a)) (hashed a sels (m1, h1))"
      by simp
    with False it first show ?thesis
      by (cases c1) (auto simp add: sel st crc64_update_append)
  qed
qed

lemma Run_keeps:
  "Run sels st = (st', ctl) \<Longrightarrow>
     Intent (snd st' a) = Intent (snd st a) \<and> writeChan (snd st' a) = writeChan (snd st a)"
proof (induction sels arbitrary: st)
  case Nil
  then show ?case by auto
next
  case (Cons sel sels)
  obtain m h where st: "st = (m, h)" by (cases st)
  obtain m1 h1 c1 where it: "Run_iter sel (m, h) = ((m1, h1), c1)"
    by (metis prod.exhaust)
  from Run_iter_keeps[OF it, of a]
  have k: "Intent (h1 a) = Intent (h a)" "writeChan (h1 a) = writeChan (h a)" by simp_all
  show ?case
  proof (cases "c1 = Returned \<or> c1 = Panicked")
    case True
    with Cons.prems it have "st' = (m1, h1)" by (auto simp add: st)
    with k show ?thesis by (simp add: st)
  next
    case False
    with Cons.prems it have "Run sels (m1, h1) = (st', ctl)"
      by (cases c1) (auto simp add: st)
    from Cons.IH[OF this] k show ?thesis by (simp add: st)
  qed
qed

text \<open>
  Framing leaves the two slices alone, and a pass of the loop keeps them correlated:
  a registration appends to both, the end of a stream removes the same index from both.
\<close>

lemma write_checked_slices:
  "write_checked m p = (m', r) \<Longrightarrow> ins m' = ins m \<and> selectCases m' = selectCases m"
  by (auto simp add: write_checked_def split: prod.splits option.splits if_splits)

lemma formatBody_slices:
  "formatBody m x p = (m', r) \<Longrightarrow> ins m' = ins m \<and> selectCases m' = selectCases m"
  unfolding formatBody_def
  by (auto simp add: Marshal_def split: prod.splits option.splits if_splits
      dest!: write_checked_slices)

lemma formatEOF_slices:
  "formatEOF m x = (m', r) \<Longrightarrow> ins m' = ins m \<and> selectCases m' = selectCases m"
  unfolding formatEOF_def
  by (auto simp add: Marshal_def split: prod.splits option.splits if_splits
      dest!: write_checked_slices)

lemma entry_ok_cong:
  "(\<And>x. writeChan (h' x) = writeChan (h x)) \<Longrightarrow> entry_ok h' e c = entry_ok h e c"
  by (cases e) simp_all

lemma aligned_cong:
  assumes "ins m' = ins m" "selectCases m' = selectCases m"
    "\<And>x. writeChan (h' x) = writeChan (h x)"
  shows "aligned (m', h') = aligned (m, h)"
proof -
  have "entry_ok h' = entry_ok h"
    by (intro ext) (rule entry_ok_cong, rule assms(3))
  then show ?thesis by (simp add: aligned_def assms(1,2))
qed

lemma Run_iter_slices:
  assumes "Run_iter sel (m, h) = ((m', h'), ctl)"
  shows "(ins m' = ins m \<and> selectCases m' = selectCases m) \<or>
         (\<exists>a. ins m' = ins m @ [Some a] \<and> selectCases m' = selectCases m @ [writeChan (h a)]) \<or>
         (\<exists>index. ins m' = take index (ins m) @ drop (index + 1) (ins m) \<and>
                   selectCases m' = take index (selectCases m) @ drop (index + 1) (selectCases m))"
proof -
  obtain index val notEOF where sel: "sel = (index, val, notEOF)" by (cases sel)
  show ?thesis
    using assms unfolding sel Run_iter_def
    by (auto simp add: Let_def publish_def
        split: if_splits option.splits prod.splits chanval.splits sum.splits
        dest!: formatBody_slices formatEOF_slices)
qed

lemma Run_iter_aligned:
  assumes it: "Run_iter sel (m, h) = ((m', h'), ctl)" and al: "aligned (m, h)"
  shows "aligned (m', h')"
proof -
  have keep: "writeChan (h' x) = writeChan (h x)" for x
    using Run_iter_keeps[OF it, of x] by simp
  have eo: "entry_ok h' = entry_ok h"
    by (intro ext) (rule entry_ok_cong, rule keep)
  from al have l2: "list_all2 (entry_ok h) (ins m) (selectCases m)"
    by (simp add: aligned_def)
  from Run_iter_slices[OF it] show ?thesis
  proof (elim disjE exE conjE)
    assume "ins m' = ins m" "selectCases m' = selectCases m"
    with l2 show ?thesis by (simp add: aligned_def eo)
  next
    fix a
    assume "ins m' = ins m @ [Some a]" "selectCases m' = selectCases m @ [writeChan (h a)]"
    with l2 show ?thesis
      by (auto simp add: aligned_def eo intro!: list_all2_appendI)
  next
    fix index
    assume "ins m' = take index (ins m) @ drop (index + 1) (ins m)"
      "selectCases m' = take index (selectCases m) @ drop (index + 1) (selectCases m)"
    with l2 show ?thesis
      by (auto simp add: aligned_def eo intro!: list_all2_appendI list_all2_takeI list_all2_dropI)
  qed
qed

lemma Run_aligned:
  "Run sels st = (st', ctl) \<Longrightarrow> aligned st \<Longrightarrow> aligned st'"
proof (induction sels arbitrary: st)
  case Nil
  then show ?case by auto
next
  case (Cons sel sels)
  obtain m h where st: "st = (m, h)" by (cases st)
  obtain m1 h1 c1 where it: "Run_iter sel (m, h) = ((m1, h1), c1)"
    by (metis prod.exhaust)
  from Run_iter_aligned[OF it] Cons.prems(2) have al: "aligned (m1, h1)" by (simp add: st)
  show ?case
  proof (cases "c1 = Returned \<or> c1 = Panicked")
    case True
    with Cons.prems it have "st' = (m1, h1)" by (auto simp add: st)
    with al show ?thesis by simp
  next
    case False
    with Cons.prems it have "Run sels (m1, h1) = (st', ctl)"
      by (cases c1) (auto simp add: st)
    from Cons.IH[OF this al] show ?thesis .
  qed
qed

text \<open>
  In a correlated state the handle found in \<open>ins\<close> at an index is the one whose data
  channel is selected there.
\<close>

lemma aligned_nth:
  assumes "aligned (m, h)" "index < length (ins m)" "ins m ! index = Some x"
  shows "selectCases m ! index = writeChan (h x)"
proof -
  from assms(1) have "list_all2 (entry_ok h) (ins m) (selectCases m)"
    by (simp add: aligned_def)
  from list_all2_nthD[OF this assms(2)] assms(3) show ?thesis by simp
qed

lemma aligned_length:
  "aligned (m, h) \<Longrightarrow> length (ins m) = length (selectCases m)"
  by (auto simp add: aligned_def dest: list_all2_lengthD)

text \<open>
  So, when the channel \<open>ch\<close> is the data channel of the handle at \<open>a\<close> and of no other,
  what arrives on \<open>ch\<close> in a run that goes through is what is hashed into that handle.
\<close>

lemma delivered_hashed:
  "Run sels st = (st', Continue) \<Longrightarrow> aligned st \<Longrightarrow>
   writeChan (snd st a) = Some ch \<Longrightarrow> (\<forall>x. writeChan (snd st x) = Some ch \<longrightarrow> x = a) \<Longrightarrow>
   delivered ch sels st = hashed a sels st"
proof (induction sels arbitrary: st)
  case Nil
  show ?case by simp
next
  case (Cons sel sels)
  obtain index val notEOF where sel: "sel = (index, val, notEOF)" by (cases sel)
  obtain m h where st: "st = (m, h)" by (cases st)
  obtain m1 h1 c1 where it: "Run_iter (index, val, notEOF) (m, h) = ((m1, h1), c1)"
    by (metis prod.exhaust)
  from Cons.prems(1) it have go: "c1 \<noteq> Returned" "c1 \<noteq> Panicked"
    by (auto simp add: sel st)
  with Cons.prems(1) it have rest: "Run sels (m1, h1) = (st', Continue)"
    by (cases c1) (auto simp add: sel st)
  from Run_iter_aligned[OF it] Cons.prems(2) have al1: "aligned (m1, h1)" by (simp add: st)
  have al: "aligned (m, h)" using Cons.prems(2) by (simp add: st)
  have keep: "writeChan (h1 x) = writeChan (h x)" for x
    using Run_iter_keeps[OF it, of x] by simp
  have ch1: "writeChan (snd (m1, h1) a) = Some ch"
    using Cons.prems(3) keep by (simp add: st)
  have only1: "\<forall>x. writeChan (snd (m1, h1) x) = Some ch \<longrightarrow> x = a"
    using Cons.prems(4) keep by (simp add: st)
  have tl_eq: "delivered ch sels (m1, h1) = hashed a sels (m1, h1)"
    by (rule Cons.IH[OF rest al1 ch1 only1])
  have hd_eq: "(index \<noteq> 0 \<and> notEOF \<and> index < length (selectCases m) \<and>
                  selectCases m ! index = Some ch) =
               (index \<noteq> 0 \<and> notEOF \<and> index < length (ins m) \<and>
                  index < length (selectCases m) \<and> ins m ! index = Some a)"
  proof (cases "index \<noteq> 0 \<and> notEOF \<and> index < length (selectCases m)")
    case False
    then show ?thesis by auto
  next
    case True
    then have lt: "index < length (ins m)" using aligned_length[OF al] by simp
    from it go True lt obtain x where x: "ins m ! index = Some x"
      unfolding Run_iter_def by (auto split: option.splits if_splits)
    from aligned_nth[OF al lt x] have sc: "selectCases m ! index = writeChan (h x)" .
    from Cons.prems(3) have cha: "writeChan (h a) = Some ch"
      unfolding st snd_conv .
    from Cons.prems(4) have only: "\<forall>y. writeChan (h y) = Some ch \<longrightarrow> y = a"
      unfolding st snd_conv .
    have "(selectCases m ! index = Some ch) = (ins m ! index = Some a)"
    proof (cases "x = a")
      case True
      with sc cha x show ?thesis by simp
    next
      case False
      with only have "writeChan (h x) \<noteq> Some ch" by blast
      with sc x False show ?thesis by simp
    qed
    with True lt show ?thesis by blast
  qed
  show ?case
    using go tl_eq hd_eq it
    by (cases c1) (simp_all add: sel st)
qed

lemma first_index_Some:
  "first_index x xs = Some i \<Longrightarrow> i < length xs \<and> xs ! i = x"
  by (induction xs arbitrary: i) (auto split: if_splits)

text \<open>The index loop keeps the options and appends one converted value per document.\<close>

lemma read_indexes_Inr:
  "read_indexes conv docs meta = Inr meta' \<Longrightarrow> Indexes meta = Some ys \<Longrightarrow>
     Options meta' = Options meta \<and>
     (\<exists>vs. Indexes meta' = Some (ys @ vs) \<and> map (\<lambda>d. conv (BD d)) docs = map Inr vs)"
proof (induction conv docs meta arbitrary: ys rule: read_indexes.induct)
  case (1 conv meta)
  then show ?case by simp
next
  case (2 conv indexOpts rest meta)
  from "2.prems" obtain v where v: "conv (BD indexOpts) = Inr v"
    and rec: "read_indexes conv rest
        (meta\<lparr>Indexes := Some ((case Indexes meta of None \<Rightarrow> [] | Some xs \<Rightarrow> xs) @ [v])\<rparr>) = Inr meta'"
    by (auto split: sum.splits)
  have ix: "Indexes (meta\<lparr>Indexes := Some ((case Indexes meta of None \<Rightarrow> [] | Some xs \<Rightarrow> xs) @ [v])\<rparr>)
      = Some (ys @ [v])"
    using "2.prems"(2) by simp
  from "2.IH"[OF v rec ix] obtain vs where
    "Options meta' = Options meta" "Indexes meta' = Some ((ys @ [v]) @ vs)"
    "map (\<lambda>d. conv (BD d)) rest = map Inr vs"
    by auto
  with v show ?case by (auto intro!: exI[of _ "v # vs"])
qed

text \<open>The scenarios, evaluated.\<close>

lemma one_open_world_eval:
  "running one_open_world" "closedChans one_open_world = {}" "nextChan one_open_world = 3"
  "selectCases (mux one_open_world) = [Some 0, Some 1]"
  "ins (mux one_open_world) = [None, Some 0]"
  "Control (mux one_open_world) = 0"
  "Completed (mux one_open_world) = []"
  "currentNamespace (mux one_open_world) = []"
  "script (Out (mux one_open_world)) = []"
  "calls (Out (mux one_open_world)) = []"
  by (simp_all add: scenario_defs world_defs mux_defs Let_def)

lemma short_ack_world_eval:
  "running short_ack_world" "closedChans short_ack_world = {}"
  "selectCases (mux short_ack_world) = [Some 0, Some 1]"
  "ins (mux short_ack_world) = [None, Some 0]"
  "Completed (mux short_ack_world) = []"
  "currentNamespace (mux short_ack_world) = []"
  "script (Out (mux short_ack_world)) = [Accept, Reply 2 None]"
  "calls (Out (mux short_ack_world)) = []"
  "buf (objs short_ack_world 0) = [5, 0, 0, 0, 0]"
  "buf_cap (objs short_ack_world 0) = 8"
  "writeChan (objs short_ack_world 0) = Some 1"
  "writeLenChan (objs short_ack_world 0) = Some 2"
  "Intent (objs short_ack_world 0) = \<lparr>DB = ''d'', C = ''c''\<rparr>"
  by (simp_all add: scenario_defs world_defs mux_defs Let_def)

lemma buffered_world_eval:
  "running buffered_world" "closedChans buffered_world = {}"
  "selectCases (mux buffered_world) = [Some 0, Some 1]"
  "ins (mux buffered_world) = [None, Some 0]"
  "currentNamespace (mux buffered_world) = []"
  "script (Out (mux buffered_world)) = []"
  "buf (objs buffered_world 0) = [5, 0, 0, 0, 0]"
  "buf_cap (objs buffered_world 0) = 8"
  "writeChan (objs buffered_world 0) = Some 1"
  "Intent (objs buffered_world 0) = \<lparr>DB = ''d'', C = ''c''\<rparr>"
  by (simp_all add: scenario_defs world_defs mux_defs Let_def)

lemma sink_error_world_eval:
  "running sink_error_world" "closedChans sink_error_world = {}"
  "selectCases (mux sink_error_world) = [Some 0, Some 1]"
  "ins (mux sink_error_world) = [None, Some 0]"
  "Completed (mux sink_error_world) = []"
  "currentNamespace (mux sink_error_world) = []"
  "script (Out (mux sink_error_world)) = [Accept, Reply 2 (Some (SinkError ''disk full''))]"
  "buf (objs sink_error_world 0) = [5, 0, 0, 0, 0]"
  "buf_cap (objs sink_error_world 0) = 8"
  "writeChan (objs sink_error_world 0) = Some 1"
  "Intent (objs sink_error_world 0) = \<lparr>DB = ''d'', C = ''c''\<rparr>"
  by (simp_all add: scenario_defs world_defs mux_defs Let_def)

lemma stopped_world_eval:
  "\<not> running stopped_world" "closedChans stopped_world = {0}"
  "buf (objs stopped_world 0) = [5, 0, 0, 0, 0]"
  "buf_cap (objs stopped_world 0) = 8"
  "writeChan (objs stopped_world 0) = Some 1"
  by (simp_all add: scenario_defs world_defs mux_defs Let_def)

lemma closed_handle_world_eval:
  "closedChans closed_handle_world = {1, 2}"
  "buf (objs closed_handle_world 0) = []"
  "buf_cap (objs closed_handle_world 0) = 0"
  "writeChan (objs closed_handle_world 0) = Some 1"
  by (auto simp add: scenario_defs world_defs mux_defs Let_def)


lemma aligned_NewMultiplexer: "aligned (NewMultiplexer out ctl, h)"
  by (simp add: aligned_def NewMultiplexer_def)

text \<open>
  \<open>formatBody\<close> on a sink that accepts the framing writes: the outcome is the reply of
  the sink to the write of the record bytes.
\<close>

lemma formatBody_accepted:
  assumes "\<forall>r\<in>set (take (framing_writes m x) (script (Out m))). r = Accept"
  shows "\<exists>m'. formatBody m x p =
            (m', (case reply_to (drop (framing_writes m x) (script (Out m))) p of
                    (n, None) \<Rightarrow> Inr n | (n, Some e) \<Rightarrow> Inl e)) \<and>
          last (calls (Out m')) = (p, reply_to (drop (framing_writes m x) (script (Out m))) p) \<and>
          Completed m' = Completed m"
proof (cases "Namespace (Intent x) \<noteq> currentNamespace m")
  case False
  then have k: "framing_writes m x = 0" by (simp add: framing_writes_def)
  show ?thesis
    using False unfolding k formatBody_def
    by (cases "(script (Out m), p)" rule: reply_to.cases)
       (auto simp add: sink_Write_def Let_def split: option.splits)
next
  case True
  note ns = this
  show ?thesis
  proof (cases "currentNamespace m \<noteq> []")
    case False
    with ns have k: "framing_writes m x = Suc 0" by (simp add: framing_writes_def)
    show ?thesis
    proof (cases "script (Out m)")
      case Nil
      with ns False show ?thesis
        unfolding k formatBody_def
        by (simp add: write_checked_def sink_Write_def Marshal_def Let_def)
    next
      case (Cons r rs)
      with assms k have r: "r = Accept" by simp
      show ?thesis
        using ns False Cons r unfolding k formatBody_def
        by (cases "(rs, p)" rule: reply_to.cases)
           (auto simp add: write_checked_def sink_Write_def Marshal_def Let_def
              split: option.splits)
    qed
  next
    case True
    with ns have k: "framing_writes m x = Suc (Suc 0)" by (simp add: framing_writes_def)
    show ?thesis
    proof (cases "script (Out m)")
      case Nil
      with ns True show ?thesis
        unfolding k formatBody_def
        by (simp add: write_checked_def sink_Write_def Marshal_def Let_def)
    next
      case (Cons r rs)
      with assms k have r: "r = Accept" by simp
      show ?thesis
      proof (cases rs)
        case Nil
        with ns True Cons r show ?thesis
          unfolding k formatBody_def
          by (simp add: write_checked_def sink_Write_def Marshal_def Let_def)
      next
        case (Cons r2 rs2)
        with assms k \<open>script (Out m) = r # rs\<close> have r2: "r2 = Accept" by simp
        show ?thesis
          using ns True \<open>script (Out m) = r # rs\<close> Cons r r2 unfolding k formatBody_def
          by (cases "(rs2, p)" rule: reply_to.cases)
             (auto simp add: write_checked_def sink_Write_def Marshal_def Let_def
                split: option.splits)
      qed
    qed
  qed
qed

text \<open>
  The handshake of a registered handle with a running multiplexer, on a sink that accepts
  the framing writes: it is answered with the count that the sink returns for the bytes,
  unless the sink returns an error; then \<open>Run\<close> publishes it and returns, and the
  producer waits for ever.
\<close>

lemma handshake_answered:
  assumes ch: "writeChan (objs w a) = Some ch" and nc: "ch \<notin> closedChans w"
    and run: "running w"
    and fi: "first_index (Some ch) (selectCases (mux w)) = Some i"
    and i0: "i \<noteq> 0" and lt: "i < length (ins (mux w))" and tab: "ins (mux w) ! i = Some a"
    and acc: "\<forall>r\<in>set (take (framing_writes (mux w) (objs w a)) (script (Out (mux w)))). r = Accept"
  shows "(case reply_to (drop (framing_writes (mux w) (objs w a)) (script (Out (mux w)))) p of
            (n, None) \<Rightarrow>
              snd (handshake a p w) = Returns n \<and>
              last (calls (Out (mux (fst (handshake a p w))))) = (p, n, None) \<and>
              running (fst (handshake a p w)) \<and>
              Completed (mux (fst (handshake a p w))) = Completed (mux w)
          | (n, Some e) \<Rightarrow>
              snd (handshake a p w) = Blocks \<and> \<not> running (fst (handshake a p w)) \<and>
              Completed (mux (fst (handshake a p w))) = Completed (mux w) @ [Some e])"
proof -
  define x where "x = (objs w a)\<lparr>hash := crc64_update (hash (objs w a)) p\<rparr>"
  have fw: "framing_writes (mux w) x = framing_writes (mux w) (objs w a)"
    by (simp add: x_def framing_writes_def)
  from first_index_Some[OF fi] have lt2: "i < length (selectCases (mux w))" by simp
  from formatBody_accepted[of "mux w" x p] acc fw
  obtain m' where fb: "formatBody (mux w) x p =
            (m', (case reply_to (drop (framing_writes (mux w) (objs w a)) (script (Out (mux w)))) p of
                    (n, None) \<Rightarrow> Inr n | (n, Some e) \<Rightarrow> Inl e))"
    and lc: "last (calls (Out m')) =
               (p, reply_to (drop (framing_writes (mux w) (objs w a)) (script (Out (mux w)))) p)"
    and co: "Completed m' = Completed (mux w)"
    by auto
  obtain n r where rp: "reply_to (drop (framing_writes (mux w) (objs w a)) (script (Out (mux w)))) p = (n, r)"
    by (cases "reply_to (drop (framing_writes (mux w) (objs w a)) (script (Out (mux w)))) p")
  have hx: "((objs w)(a := x)) a = x" by simp
  show ?thesis
  proof (cases r)
    case None
    with fb rp have "formatBody (mux w) x p = (m', Inr n)" by simp
    with ch nc run fi i0 lt lt2 tab lc co rp None show ?thesis
      by (simp add: handshake_def send_def select_result_def Run_iter_def Let_def x_def)
  next
    case (Some e)
    with fb rp have "formatBody (mux w) x p = (m', Inl e)" by simp
    with ch nc run fi i0 lt lt2 tab lc co rp Some show ?thesis
      by (simp add: handshake_def send_def select_result_def Run_iter_def Let_def x_def
          publish_def)
  qed
qed

lemma handshake_not_answered:
  "writeChan (objs w a) = None \<Longrightarrow> handshake a p w = (w, Blocks)"
  "writeChan (objs w a) = Some ch \<Longrightarrow> ch \<in> closedChans w \<Longrightarrow>
     handshake a p w = (w, Panics SendOnClosedChannel)"
  "writeChan (objs w a) = Some ch \<Longrightarrow> ch \<notin> closedChans w \<Longrightarrow> \<not> running w \<Longrightarrow>
     handshake a p w = (w, Blocks)"
  "writeChan (objs w a) = Some ch \<Longrightarrow> ch \<notin> closedChans w \<Longrightarrow> running w \<Longrightarrow>
     first_index (Some ch) (selectCases (mux w)) = None \<Longrightarrow> handshake a p w = (w, Blocks)"
  by (simp_all add: handshake_def send_def)

section \<open>Empty streams\<close>

text \<open>
  Claim C1, as stated, fails. A handle for \<open>d.c\<close> is opened on a fresh multiplexer and
  closed without a write. \<open>Close\<close> ships its empty buffer through the handshake, so
  \<open>formatBody\<close> runs and writes the open header before the empty record bytes; the
  namespace is then current and \<open>formatEOF\<close> writes a terminator before the eof header.
  The bytes emitted are not just the eof header and one terminator.
\<close>

theorem empty_stream_open_header_counterexample:
  "emitted (Out (mux (observe_EOF 1 (fst (Close 0 one_open_world))))) =
     header_document \<lparr>Database = ''d'', Collection = ''c'', EOF = False, CRC = 0\<rparr> @
     terminatorBytes @
     header_document \<lparr>Database = ''d'', Collection = ''c'', EOF = True, CRC = 0\<rparr> @
     terminatorBytes \<and>
   emitted (Out (mux (observe_EOF 1 (fst (Close 0 one_open_world))))) \<noteq>
     header_document \<lparr>Database = ''d'', Collection = ''c'', EOF = True, CRC = 0\<rparr> @
     terminatorBytes"
proof -
  have e: "emitted (Out (mux (observe_EOF 1 (fst (Close 0 one_open_world))))) =
     header_document \<lparr>Database = ''d'', Collection = ''c'', EOF = False, CRC = 0\<rparr> @
     terminatorBytes @
     header_document \<lparr>Database = ''d'', Collection = ''c'', EOF = True, CRC = 0\<rparr> @
     terminatorBytes"
    by (simp add: emitted_def scenario_defs world_defs mux_defs Let_def crc64_update_Nil
        crc64_New_def)
  have "length (header_document \<lparr>Database = ''d'', Collection = ''c'', EOF = False, CRC = 0\<rparr>) \<noteq> 0"
    by (simp add: header_document_def bson_document_def le_bytes32_def)
  then have "length (emitted (Out (mux (observe_EOF 1 (fst (Close 0 one_open_world)))))) \<noteq>
     length (header_document \<lparr>Database = ''d'', Collection = ''c'', EOF = True, CRC = 0\<rparr> @
     terminatorBytes)"
    unfolding e by (simp add: terminatorBytes_def)
  then have "emitted (Out (mux (observe_EOF 1 (fst (Close 0 one_open_world))))) \<noteq>
     header_document \<lparr>Database = ''d'', Collection = ''c'', EOF = True, CRC = 0\<rparr> @
     terminatorBytes"
    by metis
  with e show ?thesis by blast
qed

text \<open>
  Claim C1, amended. In a world where \<open>Run\<close> is in its loop, selecting on \<open>Control\<close> at
  index 0, and the sink accepts every write: a handle that is opened and closed without a
  write, with the close observed next, makes the multiplexer write the open header
  (after the terminator of a run in progress; no open header when the namespace of the
  handle is already current), the empty record bytes, a terminator, the eof header with
  \<open>crc = 0\<close> and a terminator.
\<close>

theorem open_close_without_write:
  assumes "running w" "script (Out (mux w)) = []"
    "Control (mux w) \<notin> closedChans w"
    "selectCases (mux w) \<noteq> []" "hd (selectCases (mux w)) = Some (Control (mux w))"
    "Some (nextChan w) \<notin> set (selectCases (mux w))"
    "nextChan w \<notin> closedChans w" "Suc (nextChan w) \<notin> closedChans w"
    "length (ins (mux w)) = length (selectCases (mux w))"
  shows "calls (Out (mux (observe_EOF (length (selectCases (mux w)))
                        (fst (Close a (fst (Open n a w))))))) =
     calls (Out (mux w)) @
     (if Namespace (Intent (objs w a)) \<noteq> currentNamespace (mux w) then
        (if currentNamespace (mux w) \<noteq> [] then
           [(terminatorBytes, int (length terminatorBytes), None)] else []) @
        [(header_document \<lparr>Database = DB (Intent (objs w a)), Collection = C (Intent (objs w a)),
                           EOF = False, CRC = 0\<rparr>,
          int (length (header_document \<lparr>Database = DB (Intent (objs w a)),
                           Collection = C (Intent (objs w a)), EOF = False, CRC = 0\<rparr>)), None)]
      else []) @
     [([], 0, None),
      (terminatorBytes, int (length terminatorBytes), None),
      (header_document \<lparr>Database = DB (Intent (objs w a)), Collection = C (Intent (objs w a)),
                         EOF = True, CRC = 0\<rparr>,
       int (length (header_document \<lparr>Database = DB (Intent (objs w a)),
                         Collection = C (Intent (objs w a)), EOF = True, CRC = 0\<rparr>)), None),
      (terminatorBytes, int (length terminatorBytes), None)]"
proof -
  have f0: "first_index (Some (Control (mux w))) (selectCases (mux w)) = Some 0"
    using assms(4,5) by (rule first_index_hd)
  have f1: "first_index (Some (nextChan w)) (selectCases (mux w) @ [Some (nextChan w)])
      = Some (length (selectCases (mux w)))"
    using assms(6) by (rule first_index_snoc)
  have pos: "0 < length (selectCases (mux w))" using assms(4) by simp
  show ?thesis
    using assms(1,2,3,7,8,9) f0 f1 pos Namespace_not_empty[of "Intent (objs w a)"]
    by (simp add: world_defs Run_iter_def formatBody_def formatEOF_def write_checked_def
        sink_Write_def sink_Close_def publish_def Marshal_def Let_def crc64_update_Nil
        crc64_New_def nth_append)
qed

text \<open>
  Claim C1, amended: the theorem at the fresh multiplexer with handles for \<open>d.c\<close>, where
  all its hypotheses hold.
\<close>

theorem open_close_without_write_witness:
  "calls (Out (mux (observe_EOF 1 (fst (Close 0 (fst (Open 16 0 (dc_world [])))))))) =
     [(header_document \<lparr>Database = ''d'', Collection = ''c'', EOF = False, CRC = 0\<rparr>,
       int (length (header_document \<lparr>Database = ''d'', Collection = ''c'', EOF = False, CRC = 0\<rparr>)),
       None),
      ([], 0, None),
      (terminatorBytes, int (length terminatorBytes), None),
      (header_document \<lparr>Database = ''d'', Collection = ''c'', EOF = True, CRC = 0\<rparr>,
       int (length (header_document \<lparr>Database = ''d'', Collection = ''c'', EOF = True, CRC = 0\<rparr>)),
       None),
      (terminatorBytes, int (length terminatorBytes), None)]"
  using open_close_without_write [of "dc_world []" 0 16]
  by (simp add: dc_world_def new_world_def new_sink_def NewMultiplexer_def new_MuxIn_def
      Namespace_def)

section \<open>The end of the control channel\<close>

text \<open>
  Claim C2, as stated, fails. With the handle at address 0 still open, the owner closes
  \<open>Control\<close> and \<open>Run\<close> observes it: the sink has been closed when the error is
  published, and the error carries 2, the length of \<open>selectCases\<close>, not the number 1 of
  open streams.
\<close>

theorem control_close_counterexample:
  "sink_closed (Out (mux (observe_EOF 0 (close_Control one_open_world)))) = True \<and>
   Completed (mux (observe_EOF 0 (close_Control one_open_world))) = [Some (ErrStillOpen 2)] \<and>
   running (observe_EOF 0 (close_Control one_open_world)) = False"
  by (simp add: scenario_defs world_defs mux_defs Let_def)

text \<open>
  Claim C2, amended. When \<open>Control\<close> closes while \<open>selectCases\<close> holds anything besides
  the control case, \<open>Run\<close> closes the sink, then publishes the error carrying the length of
  \<open>selectCases\<close> (the open streams and the control case) and returns, whatever would come
  next.
\<close>

theorem control_close_with_open_streams:
  assumes "length (selectCases m) \<noteq> 1"
  shows "Run ((0, v, False) # sels) (m, h) =
      ((m\<lparr>Out := sink_Close (Out m),
          Completed := Completed m @ [Some (ErrStillOpen (int (length (selectCases m))))]\<rparr>, h),
       Returned) \<and>
     sink_closed (sink_Close (Out m))"
  using assms by (simp add: Run_iter_def publish_def sink_Close_def)

text \<open>Claim C2, amended: the theorem with one handle open.\<close>

theorem control_close_with_open_streams_witness:
  "length (selectCases (mux one_open_world)) \<noteq> 1 \<and>
   Run [(0, VOther, False)] (mux one_open_world, objs one_open_world) =
      (((mux one_open_world)\<lparr>Out := sink_Close (Out (mux one_open_world)),
          Completed := [Some (ErrStillOpen 2)]\<rparr>, objs one_open_world), Returned) \<and>
   sink_closed (sink_Close (Out (mux one_open_world)))"
  using control_close_with_open_streams [of "mux one_open_world" VOther "[]" "objs one_open_world"]
  by (simp add: one_open_world_eval)

section \<open>Short writes of record bytes\<close>

text \<open>
  Claim C3, as stated, fails. The handle holds a record of 5 bytes and is closed; the
  sink takes the open header and returns 2 with a nil error for the record bytes.
  Nothing is published on the completion channel and \<open>Run\<close> stays in its loop; the count
  2 goes back to the producer, whose \<open>Close\<close> returns the short write.
\<close>

theorem short_record_write_counterexample:
  "Completed (mux (fst (Close 0 short_ack_world))) = [] \<and>
   running (fst (Close 0 short_ack_world)) = True \<and>
   last (calls (Out (mux (fst (Close 0 short_ack_world))))) = ([5, 0, 0, 0, 0], 2, None)"
  by (simp add: scenario_defs world_defs mux_defs Let_def)

text \<open>
  Claim C3, amended. On a data receive in which the framing writes (none, the open header,
  or a terminator and the open header) are accepted and the sink returns a count \<open>n\<close>
  short of the record bytes: with a nil error, the pass publishes nothing on the
  completion channel and goes round again after sending \<open>n\<close> on the handle's ack
  channel; with an error, the pass publishes that error, whichever it is, and \<open>Run\<close>
  returns without sending a length.
\<close>

theorem short_record_write:
  assumes "index \<noteq> 0" "index < length (ins m)" "index < length (selectCases m)"
    "ins m ! index = Some a"
    "script (Out m) =
       replicate (if Namespace (Intent (h a)) \<noteq> currentNamespace m
                  then (if currentNamespace m \<noteq> [] then 2 else 1) else 0) Accept @
       Reply n err # rest"
    "n < int (length b)"
  shows "\<exists>m' h'. Run_iter (index, VBytes b, True) (m, h) =
                   ((m', h'), (case err of None \<Rightarrow> Acked n | Some e \<Rightarrow> Returned)) \<and>
                 Completed m' =
                   Completed m @ (case err of None \<Rightarrow> [] | Some e \<Rightarrow> [Some e])"
  using assms
  by (cases err)
     (auto simp add: Run_iter_def formatBody_def write_checked_def sink_Write_def Marshal_def
        publish_def Let_def numeral_2_eq_2)

text \<open>
  Claim C3, amended: the theorem at the flush of the 5 buffered bytes, of which the sink
  takes 2, once with a nil error and once with an error of its own.
\<close>

theorem short_record_write_witness:
  "(\<exists>m' h'. Run_iter (1, VBytes [5, 0, 0, 0, 0], True) (mux short_ack_world, objs short_ack_world)
              = ((m', h'), Acked 2) \<and>
            Completed m' = []) \<and>
   (\<exists>m' h'. Run_iter (1, VBytes [5, 0, 0, 0, 0], True)
                (mux (fst (Open 8 0 (dc_world [Accept, Reply 2 (Some (SinkError ''disk full''))]))),
                 objs short_ack_world)
              = ((m', h'), Returned) \<and>
            Completed m' = [Some (SinkError ''disk full'')])"
  using short_record_write [of 1 "mux short_ack_world" 0 "objs short_ack_world" 2 None "[]"
      "[5, 0, 0, 0, 0]"]
    short_record_write [of 1
      "mux (fst (Open 8 0 (dc_world [Accept, Reply 2 (Some (SinkError ''disk full''))])))" 0
      "objs short_ack_world" 2 "Some (SinkError ''disk full'')" "[]" "[5, 0, 0, 0, 0]"]
  by (simp add: short_ack_world_eval Namespace_def scenario_defs world_defs mux_defs Let_def)

section \<open>Close after a short write\<close>

text \<open>
  Claim C4 holds of what \<open>Close\<close> is documented to do (it closes the channels, so that the
  multiplexer comes to \<open>formatEOF\<close>), and the code does not do it: with the ack 2 for 5
  buffered bytes \<open>Close\<close> returns the short write before it reaches the two \<open>close\<close>
  statements. Both channels stay open, and there is no end of stream for \<open>Run\<close> to
  observe.
\<close>

theorem Close_short_ack_leaves_channels_open:
  "snd (Close 0 short_ack_world) = Returns (Some ErrShortWrite) \<and>
   closedChans (fst (Close 0 short_ack_world)) = {} \<and>
   writeChan (objs (fst (Close 0 short_ack_world)) 0) = Some 1 \<and>
   writeLenChan (objs (fst (Close 0 short_ack_world)) 0) = Some 2 \<and>
   observe_EOF 1 (fst (Close 0 short_ack_world)) = fst (Close 0 short_ack_world)"
  by (simp add: scenario_defs world_defs mux_defs Let_def)

section \<open>Opening twice\<close>

text \<open>
  Claim C5, as stated, fails. \<open>Open\<close> has no test for a handle that is open: the second
  call on the handle at address 0 returns nil.
\<close>

theorem second_Open_counterexample:
  "snd (Open 16 0 one_open_world) = Returns None"
  by (simp add: scenario_defs world_defs mux_defs Let_def)

text \<open>
  Claim C5, amended. While \<open>Run\<close> is in its loop and selects on the open \<open>Control\<close>
  channel, \<open>Open\<close> returns nil for every handle, open or not: it gives the handle new
  channels, an empty buffer and a new hash, and the multiplexer registers the handle
  (again) with the new data channel.
\<close>

theorem Open_always_registers:
  assumes "running w" "Control (mux w) \<notin> closedChans w"
    "selectCases (mux w) \<noteq> []" "hd (selectCases (mux w)) = Some (Control (mux w))"
  shows "snd (Open n a w) = Returns None \<and>
     ins (mux (fst (Open n a w))) = ins (mux w) @ [Some a] \<and>
     selectCases (mux (fst (Open n a w))) = selectCases (mux w) @ [Some (nextChan w)] \<and>
     writeChan (objs (fst (Open n a w)) a) = Some (nextChan w) \<and>
     buf (objs (fst (Open n a w)) a) = [] \<and>
     hash (objs (fst (Open n a w)) a) = crc64_New"
proof -
  from assms(3,4) have "first_index (Some (Control (mux w))) (selectCases (mux w)) = Some 0"
    by (rule first_index_hd)
  with assms(1,2) show ?thesis
    by (simp add: world_defs mux_defs Let_def)
qed

text \<open>Claim C5, amended: the theorem at the second \<open>Open\<close> of the handle at address 0.\<close>

theorem Open_always_registers_witness:
  "snd (Open 16 0 one_open_world) = Returns None \<and>
   ins (mux (fst (Open 16 0 one_open_world))) = [None, Some 0, Some 0] \<and>
   selectCases (mux (fst (Open 16 0 one_open_world))) = [Some 0, Some 1, Some 3] \<and>
   writeChan (objs (fst (Open 16 0 one_open_world)) 0) = Some 3 \<and>
   buf (objs (fst (Open 16 0 one_open_world)) 0) = [] \<and>
   hash (objs (fst (Open 16 0 one_open_world)) 0) = crc64_New"
  using Open_always_registers [of one_open_world 16 0]
  by (simp add: one_open_world_eval)

section \<open>The checksum of the eof header\<close>

lemma interleaved_run:
  "Run interleaved (NewMultiplexer (new_sink []) 0, two_handles) = (interleaved_state, Continue)"
proof -
  have "snd (Run interleaved (NewMultiplexer (new_sink []) 0, two_handles)) = Continue"
    by (simp add: interleaved_def two_handles_def NewMultiplexer_def new_sink_def new_MuxIn_def
        mux_defs Let_def)
  then show ?thesis
    by (simp add: interleaved_state_def prod_eq_iff)
qed

lemma interleaved_state_eval:
  "ins (fst interleaved_state) = [None, Some 1]"
  "selectCases (fst interleaved_state) = [Some 0, Some 3]"
  "currentNamespace (fst interleaved_state) = ''b.y''"
  "script (Out (fst interleaved_state)) = []"
  by (simp_all add: interleaved_state_def interleaved_def two_handles_def NewMultiplexer_def
      new_sink_def new_MuxIn_def mux_defs Let_def)

lemma interleaved_delivered:
  "delivered 3 interleaved (NewMultiplexer (new_sink []) 0, two_handles) =
     [6, 0, 0, 0, 9, 0] @ [7, 0, 0, 0, 1, 2, 0]"
  by (simp add: interleaved_def two_handles_def NewMultiplexer_def new_sink_def new_MuxIn_def
      mux_defs Let_def)

text \<open>
  Claim C6. Let \<open>ch\<close> be the data channel of the handle at \<open>a\<close> and of no other handle,
  and let the hash of the handle be new, as \<open>Open\<close> leaves it. Let \<open>Run\<close> start with
  \<open>ins\<close> and \<open>selectCases\<close> correlated (as \<open>NewMultiplexer\<close> leaves them), work through
  any select results \<open>sels\<close>, then receive the end of \<open>ch\<close> and frame it without error.
  The eof header it writes names the handle's database and collection and carries the
  CRC-64 of the concatenation of all record bytes that arrived on \<open>ch\<close> during \<open>sels\<close>,
  however they were split over the receives, whatever other handles did in between and
  wherever the case of \<open>ch\<close> stood in \<open>selectCases\<close> at the time.
\<close>

theorem eof_header_crc:
  assumes al: "aligned (m, h)"
    and ch: "writeChan (h a) = Some ch"
    and only: "\<forall>x. writeChan (h x) = Some ch \<longrightarrow> x = a"
    and fresh: "hash (h a) = crc64_New"
    and run: "Run sels (m, h) = ((m1, h1), Continue)"
    and idx: "index \<noteq> 0" "index < length (selectCases m1)" "selectCases m1 ! index = Some ch"
    and eof: "Run_iter (index, v, False) (m1, h1) = ((m2, h2), Continue)"
  shows "calls (Out m2) =
     calls (Out m1) @
     (if currentNamespace m1 \<noteq> [] then [(terminatorBytes, int (length terminatorBytes), None)]
      else []) @
     [(header_document \<lparr>Database = DB (Intent (h a)), Collection = C (Intent (h a)), EOF = True,
                        CRC = crc64_checksum (delivered ch sels (m, h))\<rparr>,
       int (length (header_document \<lparr>Database = DB (Intent (h a)), Collection = C (Intent (h a)),
                        EOF = True, CRC = crc64_checksum (delivered ch sels (m, h))\<rparr>)), None),
      (terminatorBytes, int (length terminatorBytes), None)]"
proof -
  from Run_aligned[OF run] al have al1: "aligned (m1, h1)" by simp
  from Run_keeps[OF run] have keep: "writeChan (h1 x) = writeChan (h x)" for x by simp
  from Run_keeps[OF run, of a] have it: "Intent (h1 a) = Intent (h a)" by simp
  from aligned_length[OF al1] idx(2) have lt: "index < length (ins m1)" by simp
  from eof idx(1) lt obtain x where x: "ins m1 ! index = Some x"
    unfolding Run_iter_def by (auto split: option.splits if_splits)
  from aligned_nth[OF al1 lt x] idx(3) keep[of x] have "writeChan (h x) = Some ch" by simp
  with only have "x = a" by blast
  with x have tab: "ins m1 ! index = Some a" by simp
  have "delivered ch sels (m, h) = hashed a sels (m, h)"
    by (rule delivered_hashed[of sels "(m, h)" _ a ch, unfolded snd_conv, OF run al ch only])
  with Run_hash[OF run, of a] fresh
  have hs: "hash (h1 a) = crc64_checksum (delivered ch sels (m, h))"
    by (simp add: crc64_checksum_def)
  from eof idx(1) tab show ?thesis unfolding Run_iter_def formatEOF_def
    by (auto simp add: hs it Let_def write_checked_def sink_Write_def Marshal_def publish_def
         split: if_splits option.splits prod.splits list.splits reply.splits)
qed

text \<open>
  Claim C6: the theorem for the handle \<open>b.y\<close> of the interleaved run. Its two records
  arrive in separate receives, the first at index 2 and the second, after \<open>a.x\<close> has sent
  a record and has been closed, at index 1.
\<close>

theorem eof_header_crc_witness:
  "calls (Out (fst (fst (Run_iter (1, VOther, False) interleaved_state)))) =
     calls (Out (fst interleaved_state)) @
     [(terminatorBytes, int (length terminatorBytes), None),
      (header_document \<lparr>Database = ''b'', Collection = ''y'', EOF = True,
                         CRC = crc64_checksum ([6, 0, 0, 0, 9, 0] @ [7, 0, 0, 0, 1, 2, 0])\<rparr>,
       int (length (header_document \<lparr>Database = ''b'', Collection = ''y'', EOF = True,
                         CRC = crc64_checksum ([6, 0, 0, 0, 9, 0] @ [7, 0, 0, 0, 1, 2, 0])\<rparr>)), None),
      (terminatorBytes, int (length terminatorBytes), None)]"
proof -
  have al: "aligned (NewMultiplexer (new_sink []) 0, two_handles)"
    by (rule aligned_NewMultiplexer)
  have ch: "writeChan (two_handles 1) = Some 3"
    by (simp add: two_handles_def new_MuxIn_def)
  have only: "\<forall>x. writeChan (two_handles x) = Some 3 \<longrightarrow> x = 1"
    by (simp add: two_handles_def new_MuxIn_def)
  have fresh: "hash (two_handles 1) = crc64_New"
    by (simp add: two_handles_def new_MuxIn_def)
  have run: "Run interleaved (NewMultiplexer (new_sink []) 0, two_handles) =
      ((fst interleaved_state, snd interleaved_state), Continue)"
    using interleaved_run by simp
  have idx: "(1::nat) \<noteq> 0" "1 < length (selectCases (fst interleaved_state))"
    "selectCases (fst interleaved_state) ! 1 = Some 3"
    by (simp_all add: interleaved_state_eval)
  have "snd (Run_iter (1, VOther, False) (fst interleaved_state, snd interleaved_state)) = Continue"
    by (simp add: interleaved_state_eval mux_defs Let_def case_prod_beta)
  then have eof: "Run_iter (1, VOther, False) (fst interleaved_state, snd interleaved_state) =
      ((fst (fst (Run_iter (1, VOther, False) interleaved_state)),
        snd (fst (Run_iter (1, VOther, False) interleaved_state))), Continue)"
    by (simp add: prod_eq_iff)
  have it: "Intent (two_handles (Suc 0)) = \<lparr>DB = ''b'', C = ''y''\<rparr>"
    by (simp add: two_handles_def new_MuxIn_def)
  from eof_header_crc [OF al ch only fresh run idx eof]
  show ?thesis
    by (simp add: interleaved_delivered interleaved_state_eval it)
qed

section \<open>Buffered writes\<close>

text \<open>
  Claim C7, as stated, fails: there are outcomes besides the full length and the short
  write. The handle holds 5 bytes of its capacity of 8, and a record of 5 bytes that
  meets the structural preconditions is written. The buffer is shipped; the sink takes
  the open header and fails on the record bytes; \<open>Run\<close> publishes the error and returns
  without sending a length, and \<open>Write\<close> waits for it for ever.
\<close>

theorem Write_blocks_counterexample:
  "4 \<le> length [5, 0, 0, 0, 0 :: byte] \<and>
   declared_size [5, 0, 0, 0, 0] = 5 \<and>
   [5, 0, 0, 0, 0 :: byte] ! 4 = 0 \<and>
   snd (Write 0 [5, 0, 0, 0, 0] sink_error_world) = Blocks \<and>
   running (fst (Write 0 [5, 0, 0, 0, 0] sink_error_world)) = False \<and>
   Completed (mux (fst (Write 0 [5, 0, 0, 0, 0] sink_error_world))) =
     [Some (SinkError ''disk full'')]"
  by (simp add: sink_error_world_def dc_world_def world_defs mux_defs Let_def)

text \<open>
  Claim C7, amended. For a write that meets the structural preconditions: when the bytes
  fit into the capacity of the buffer beside what it holds, nothing is shipped (the
  multiplexer is untouched), the bytes are appended and the call returns their length.
  When they do not fit, the buffer is shipped through the handshake first. The call
  panics if the data channel of the handle is closed, and never returns if the channel
  is nil, if \<open>Run\<close> has left its loop or if \<open>Run\<close> does not select on the channel.
  Otherwise, with the handle registered at the index of its channel and the framing
  writes accepted, the sink's reply to the write of the buffer decides: a count equal to
  the length of the buffer and a nil error empty the buffer, the bytes are appended and
  the call returns their length; another count and a nil error make the call return 0
  and the short write, the buffer unchanged; an error is published by \<open>Run\<close>, which
  returns, and the call never returns. A call that returns has one of the two results.
\<close>

theorem Write_outcomes:
  assumes "4 \<le> length b" "declared_size b \<le> int (length b)" "0 < declared_size b"
    "b ! nat (declared_size b - 1) = 0"
  shows
   "(length (buf (objs w a)) + length b \<le> buf_cap (objs w a) \<longrightarrow>
       snd (Write a b w) = Returns (int (length b), None) \<and>
       mux (fst (Write a b w)) = mux w \<and>
       buf (objs (fst (Write a b w)) a) = buf (objs w a) @ b) \<and>
    (buf_cap (objs w a) < length (buf (objs w a)) + length b \<longrightarrow>
       (case writeChan (objs w a) of
          None \<Rightarrow> Write a b w = (w, Blocks)
        | Some ch \<Rightarrow>
            if ch \<in> closedChans w then Write a b w = (w, Panics SendOnClosedChannel)
            else if \<not> running w then Write a b w = (w, Blocks)
            else
              (case first_index (Some ch) (selectCases (mux w)) of
                 None \<Rightarrow> Write a b w = (w, Blocks)
               | Some i \<Rightarrow>
                   (i \<noteq> 0 \<and> i < length (ins (mux w)) \<and> ins (mux w) ! i = Some a \<and>
                    (\<forall>r\<in>set (take (framing_writes (mux w) (objs w a)) (script (Out (mux w)))).
                        r = Accept) \<longrightarrow>
                    (case reply_to (drop (framing_writes (mux w) (objs w a))
                                      (script (Out (mux w)))) (buf (objs w a)) of
                       (n, None) \<Rightarrow>
                         if n = int (length (buf (objs w a)))
                         then snd (Write a b w) = Returns (int (length b), None) \<and>
                              buf (objs (fst (Write a b w)) a) = b \<and>
                              last (calls (Out (mux (fst (Write a b w))))) =
                                (buf (objs w a), n, None) \<and>
                              running (fst (Write a b w))
                         else snd (Write a b w) = Returns (0, Some ErrShortWrite) \<and>
                              buf (objs (fst (Write a b w)) a) = buf (objs w a) \<and>
                              running (fst (Write a b w))
                     | (n, Some e) \<Rightarrow>
                         snd (Write a b w) = Blocks \<and> \<not> running (fst (Write a b w)) \<and>
                         Completed (mux (fst (Write a b w))) = Completed (mux w) @ [Some e]))))) \<and>
    (\<forall>w' r. Write a b w = (w', Returns r) \<longrightarrow>
       r = (int (length b), None) \<or> r = (0, Some ErrShortWrite))"
proof (intro conjI impI allI)
  assume "length (buf (objs w a)) + length b \<le> buf_cap (objs w a)"
  with assms show "snd (Write a b w) = Returns (int (length b), None)"
    "mux (fst (Write a b w)) = mux w"
    "buf (objs (fst (Write a b w)) a) = buf (objs w a) @ b"
    by (simp_all add: Write_def Let_def bufferWrites_def append_buf_def set_obj_def)
next
  fix w' r
  assume "Write a b w = (w', Returns r)"
  with assms show "r = (int (length b), None) \<or> r = (0, Some ErrShortWrite)"
    by (auto simp add: Write_def Let_def bufferWrites_def split: if_splits prod.splits call.splits)
next
  assume ov: "buf_cap (objs w a) < length (buf (objs w a)) + length b"
  have W: "Write a b w =
      (case handshake a (buf (objs w a)) w of
         (w1, Returns len) \<Rightarrow>
           if len \<noteq> int (length (buf (objs w1 a))) then (w1, Returns (0, Some ErrShortWrite))
           else (append_buf a b (truncate_buf a w1), Returns (int (length b), None))
       | (w1, Panics p) \<Rightarrow> (w1, Panics p)
       | (w1, Blocks) \<Rightarrow> (w1, Blocks))"
    using assms ov by (simp add: Write_def Let_def bufferWrites_def)
  show "case writeChan (objs w a) of
          None \<Rightarrow> Write a b w = (w, Blocks)
        | Some ch \<Rightarrow>
            if ch \<in> closedChans w then Write a b w = (w, Panics SendOnClosedChannel)
            else if \<not> running w then Write a b w = (w, Blocks)
            else
              (case first_index (Some ch) (selectCases (mux w)) of
                 None \<Rightarrow> Write a b w = (w, Blocks)
               | Some i \<Rightarrow>
                   (i \<noteq> 0 \<and> i < length (ins (mux w)) \<and> ins (mux w) ! i = Some a \<and>
                    (\<forall>r\<in>set (take (framing_writes (mux w) (objs w a)) (script (Out (mux w)))).
                        r = Accept) \<longrightarrow>
                    (case reply_to (drop (framing_writes (mux w) (objs w a))
                                      (script (Out (mux w)))) (buf (objs w a)) of
                       (n, None) \<Rightarrow>
                         if n = int (length (buf (objs w a)))
                         then snd (Write a b w) = Returns (int (length b), None) \<and>
                              buf (objs (fst (Write a b w)) a) = b \<and>
                              last (calls (Out (mux (fst (Write a b w))))) =
                                (buf (objs w a), n, None) \<and>
                              running (fst (Write a b w))
                         else snd (Write a b w) = Returns (0, Some ErrShortWrite) \<and>
                              buf (objs (fst (Write a b w)) a) = buf (objs w a) \<and>
                              running (fst (Write a b w))
                     | (n, Some e) \<Rightarrow>
                         snd (Write a b w) = Blocks \<and> \<not> running (fst (Write a b w)) \<and>
                         Completed (mux (fst (Write a b w))) = Completed (mux w) @ [Some e])))"
  proof (cases "writeChan (objs w a)")
    case None
    with handshake_not_answered(1)[OF None] show ?thesis by (simp add: W)
  next
    case (Some ch)
    show ?thesis
    proof (cases "ch \<in> closedChans w")
      case True
      with Some handshake_not_answered(2)[OF Some True] show ?thesis by (simp add: W)
    next
      case nc: False
      show ?thesis
      proof (cases "running w")
        case False
        with Some nc handshake_not_answered(3)[OF Some nc False] show ?thesis by (simp add: W)
      next
        case run: True
        show ?thesis
        proof (cases "first_index (Some ch) (selectCases (mux w))")
          case None
          with Some nc run handshake_not_answered(4)[OF Some nc run None] show ?thesis
            by (simp add: W)
        next
          case (Some i)
          have "case reply_to (drop (framing_writes (mux w) (objs w a))
                                      (script (Out (mux w)))) (buf (objs w a)) of
                       (n, None) \<Rightarrow>
                         if n = int (length (buf (objs w a)))
                         then snd (Write a b w) = Returns (int (length b), None) \<and>
                              buf (objs (fst (Write a b w)) a) = b \<and>
                              last (calls (Out (mux (fst (Write a b w))))) =
                                (buf (objs w a), n, None) \<and>
                              running (fst (Write a b w))
                         else snd (Write a b w) = Returns (0, Some ErrShortWrite) \<and>
                              buf (objs (fst (Write a b w)) a) = buf (objs w a) \<and>
                              running (fst (Write a b w))
                     | (n, Some e) \<Rightarrow>
                         snd (Write a b w) = Blocks \<and> \<not> running (fst (Write a b w)) \<and>
                         Completed (mux (fst (Write a b w))) = Completed (mux w) @ [Some e]"
            if i0: "i \<noteq> 0" and lt: "i < length (ins (mux w))" and tab: "ins (mux w) ! i = Some a"
              and acc: "\<forall>r\<in>set (take (framing_writes (mux w) (objs w a)) (script (Out (mux w)))).
                        r = Accept"
          proof -
            obtain w1 c where hs: "handshake a (buf (objs w a)) w = (w1, c)"
              by (cases "handshake a (buf (objs w a)) w")
            from handshake_keeps[OF hs, of a] have kb: "buf (objs w1 a) = buf (objs w a)" by simp
            obtain n r where rp: "reply_to (drop (framing_writes (mux w) (objs w a))
                (script (Out (mux w)))) (buf (objs w a)) = (n, r)"
              by (cases "reply_to (drop (framing_writes (mux w) (objs w a))
                (script (Out (mux w)))) (buf (objs w a))")
            note ans = handshake_answered[OF \<open>writeChan (objs w a) = Some ch\<close> nc run Some i0 lt tab acc,
                of "buf (objs w a)", unfolded rp hs, simplified]
            show ?thesis
            proof (cases r)
              case None
              with ans have "c = Returns n" "last (calls (Out (mux w1))) = (buf (objs w a), n, None)"
                "running w1"
                by simp_all
              with hs kb rp None show ?thesis
                by (simp add: W append_buf_def truncate_buf_def set_obj_def)
            next
              case (Some e)
              with ans have "c = Blocks" "\<not> running w1"
                "Completed (mux w1) = Completed (mux w) @ [Some e]"
                by simp_all
              with hs rp Some show ?thesis by (simp add: W)
            qed
          qed
          with \<open>writeChan (objs w a) = Some ch\<close> nc run Some show ?thesis by simp
        qed
      qed
    qed
  qed
qed

text \<open>
  Claim C7, amended: the theorem for a record of 5 bytes and a capacity of 8: into the
  empty buffer (no shipment); onto 5 buffered bytes with a sink that accepts (shipment,
  full length), with a sink that takes 2 of them (short write) and with a sink that fails
  (never returns); after \<open>Run\<close> has returned (never returns); and after the handle was
  closed (panic).
\<close>

theorem Write_outcomes_witness:
  "snd (Write 0 [5, 0, 0, 0, 0] (fst (Open 8 0 (dc_world [])))) = Returns (5, None) \<and>
   mux (fst (Write 0 [5, 0, 0, 0, 0] (fst (Open 8 0 (dc_world []))))) =
     mux (fst (Open 8 0 (dc_world []))) \<and>
   buf (objs (fst (Write 0 [5, 0, 0, 0, 0] (fst (Open 8 0 (dc_world []))))) 0) = [5, 0, 0, 0, 0] \<and>
   snd (Write 0 [5, 0, 0, 0, 0] buffered_world) = Returns (5, None) \<and>
   buf (objs (fst (Write 0 [5, 0, 0, 0, 0] buffered_world)) 0) = [5, 0, 0, 0, 0] \<and>
   last (calls (Out (mux (fst (Write 0 [5, 0, 0, 0, 0] buffered_world))))) =
     ([5, 0, 0, 0, 0], 5, None) \<and>
   snd (Write 0 [5, 0, 0, 0, 0] short_ack_world) = Returns (0, Some ErrShortWrite) \<and>
   buf (objs (fst (Write 0 [5, 0, 0, 0, 0] short_ack_world)) 0) = [5, 0, 0, 0, 0] \<and>
   snd (Write 0 [5, 0, 0, 0, 0] sink_error_world) = Blocks \<and>
   Write 0 [5, 0, 0, 0, 0] stopped_world = (stopped_world, Blocks) \<and>
   Write 0 [5, 0, 0, 0, 0] closed_handle_world = (closed_handle_world, Panics SendOnClosedChannel)"
proof -
  have pre: "4 \<le> length [5, 0, 0, 0, 0 :: byte]"
    "declared_size [5, 0, 0, 0, 0] \<le> int (length [5, 0, 0, 0, 0 :: byte])"
    "0 < declared_size [5, 0, 0, 0, 0]"
    "[5, 0, 0, 0, 0 :: byte] ! nat (declared_size [5, 0, 0, 0, 0] - 1) = 0"
    by simp_all
  have b0: "buf (objs (fst (Open 8 0 (dc_world []))) 0) = []"
    "buf_cap (objs (fst (Open 8 0 (dc_world []))) 0) = 8"
    by (simp_all add: scenario_defs world_defs mux_defs Let_def)
  from Write_outcomes [OF pre, of "fst (Open 8 0 (dc_world []))" 0]
       Write_outcomes [OF pre, of buffered_world 0]
       Write_outcomes [OF pre, of short_ack_world 0]
       Write_outcomes [OF pre, of sink_error_world 0]
       Write_outcomes [OF pre, of stopped_world 0]
       Write_outcomes [OF pre, of closed_handle_world 0]
  show ?thesis
    by (simp add: b0 short_ack_world_eval buffered_world_eval sink_error_world_eval
        stopped_world_eval closed_handle_world_eval framing_writes_def Namespace_def)
qed

section \<open>Writes that panic on an index\<close>

text \<open>
  Claim C8. \<open>Write\<close> panics with an index out of range, not with one of its two
  corrupt-record panics, on every input shorter than 4 bytes (reading the length prefix)
  and on every input of at least 4 bytes whose prefix decodes to 0 (reading
  \<open>buf[size-1]\<close>); nothing has been done to the handle or the multiplexer by then.
\<close>

theorem Write_index_panic:
  "(length b < 4 \<longrightarrow> Write a b w = (w, Panics IndexOutOfRange)) \<and>
   (4 \<le> length b \<and> declared_size b = 0 \<longrightarrow> Write a b w = (w, Panics IndexOutOfRange))"
  by (simp add: Write_def Let_def)

text \<open>Claim C8: the theorem for an input of 3 bytes and for one whose prefix is 0.\<close>

theorem Write_index_panic_witness:
  "length [1, 2, 3 :: byte] < 4 \<and>
   Write 0 [1, 2, 3] one_open_world = (one_open_world, Panics IndexOutOfRange) \<and>
   4 \<le> length [0, 0, 0, 0, 7 :: byte] \<and> declared_size [0, 0, 0, 0, 7] = 0 \<and>
   Write 0 [0, 0, 0, 0, 7] one_open_world = (one_open_world, Panics IndexOutOfRange)"
  using Write_index_panic [of "[1, 2, 3]" 0 one_open_world]
        Write_index_panic [of "[0, 0, 0, 0, 7]" 0 one_open_world]
  by simp

section \<open>The length sent back\<close>

text \<open>
  Claim C9. When \<open>formatBody\<close> succeeds, the length it sends on the ack channel is the
  count that the sink returned for the write of the record bytes alone: the framing
  writes before it (at most two, each accepted in full) are not counted. With a sink that
  accepts everything the length sent is the length of the record bytes, whether or not a
  header was written.
\<close>

theorem formatBody_ack:
  "(formatBody m muxIn b = (m', Inr n) \<longrightarrow>
      (\<exists>framing. calls (Out m') = calls (Out m) @ framing @ [(b, n, None)] \<and>
          length framing \<le> 2 \<and>
          (\<forall>c\<in>set framing. snd c = (int (length (fst c)), None)))) \<and>
   (script (Out m) = [] \<longrightarrow> snd (formatBody m muxIn b) = Inr (int (length b)))"
  by (auto simp add: formatBody_def write_checked_def sink_Write_def Marshal_def Let_def
      split: if_splits list.splits reply.splits option.splits prod.splits)

text \<open>
  Claim C9: the theorem at the first record of a handle, where the open header is written
  first: with a sink that takes 2 of the 5 record bytes, and with one that accepts.
\<close>

theorem formatBody_ack_witness:
  "snd (formatBody (mux short_ack_world) (objs short_ack_world 0) [5, 0, 0, 0, 0]) = Inr 2 \<and>
   last (calls (Out (fst (formatBody (mux short_ack_world) (objs short_ack_world 0)
                            [5, 0, 0, 0, 0])))) = ([5, 0, 0, 0, 0], 2, None) \<and>
   length (calls (Out (fst (formatBody (mux short_ack_world) (objs short_ack_world 0)
                            [5, 0, 0, 0, 0])))) = 2 \<and>
   script (Out (mux one_open_world)) = [] \<and>
   snd (formatBody (mux one_open_world) (objs one_open_world 0) [5, 0, 0, 0, 0]) = Inr 5"
proof -
  have s2: "snd (formatBody (mux short_ack_world) (objs short_ack_world 0) [5, 0, 0, 0, 0]) = Inr 2"
    by (simp add: short_ack_world_eval formatBody_def write_checked_def
        sink_Write_def Marshal_def Namespace_def Let_def)
  then have s: "formatBody (mux short_ack_world) (objs short_ack_world 0) [5, 0, 0, 0, 0] =
     (fst (formatBody (mux short_ack_world) (objs short_ack_world 0) [5, 0, 0, 0, 0]), Inr 2)"
    by (simp add: prod_eq_iff)
  from formatBody_ack [of "mux short_ack_world" "objs short_ack_world 0" "[5, 0, 0, 0, 0]"
        "fst (formatBody (mux short_ack_world) (objs short_ack_world 0) [5, 0, 0, 0, 0])" 2] s
  obtain framing where
    "calls (Out (fst (formatBody (mux short_ack_world) (objs short_ack_world 0) [5, 0, 0, 0, 0])))
       = calls (Out (mux short_ack_world)) @ framing @ [([5, 0, 0, 0, 0], 2, None)]"
    by blast
  moreover have "length (calls (Out (fst (formatBody (mux short_ack_world)
      (objs short_ack_world 0) [5, 0, 0, 0, 0])))) = 2"
    by (simp add: short_ack_world_eval formatBody_def write_checked_def
        sink_Write_def Marshal_def Namespace_def Let_def)
  moreover from formatBody_ack [of "mux one_open_world" "objs one_open_world 0" "[5, 0, 0, 0, 0]"]
  have "snd (formatBody (mux one_open_world) (objs one_open_world 0) [5, 0, 0, 0, 0]) = Inr 5"
    by (simp add: one_open_world_eval)
  ultimately show ?thesis using s2
    by (simp add: one_open_world_eval)
qed

section \<open>The metadata document\<close>

text \<open>
  Claim C10, as stated, fails in its last part. For a collection without options and
  without indexes the JSON has the key \<open>options\<close>, holding the empty document that
  \<open>dumpMetadata\<close> puts there before it looks for options; the key is not left out.
  \<open>indexes\<close> is the empty array.
\<close>

theorem empty_options_counterexample:
  "dumpMetadata plain_collection =
     (None, Some (JObject [(''options'', JValue (MarshalD [])), (''indexes'', JArray [])]))"
  by (simp add: plain_collection_def healthy_env_def dumpMetadata_def json_Marshal_def)

text \<open>
  Claim C10, amended. Whenever \<open>dumpMetadata\<close> hands JSON to the writer, it is an object
  with the key \<open>indexes\<close> holding an array, never null, of the converted index documents
  in order (empty for a collection without indexes). Before it comes the key \<open>options\<close>:
  with the empty document when the description of the collection has no options, with the
  converted options otherwise. It is left out only if that conversion gives a nil value.
\<close>

theorem dumpMetadata_json_shape:
  assumes "dumpMetadata env = (e, Some j)"
  shows "\<exists>opts vs. j = JObject ((if opts = GoNil then [] else [(''options'', JValue opts)]) @
                               [(''indexes'', JArray (map JValue vs))]) \<and>
           map (\<lambda>d. ConvertBSONValueToJSON env (BD d)) (indexDocs env) = map Inr vs \<and>
           (case FindValueByKey env ''options''
                   (case GetCollectionOptions env of Inr (Some ci) \<Rightarrow> ci | _ \<Rightarrow> []) of
              Inl _ \<Rightarrow> opts = MarshalD []
            | Inr v \<Rightarrow> ConvertBSONValueToJSON env v = Inr opts)"
proof -
  have *: "read_indexes conv docs \<lparr>Options = opts, Indexes = Some []\<rparr> = Inr meta' \<Longrightarrow>
     \<exists>vs. meta' = \<lparr>Options = opts, Indexes = Some vs\<rparr> \<and> map (\<lambda>d. conv (BD d)) docs = map Inr vs"
    for conv docs opts meta'
    using read_indexes_Inr[of conv docs "\<lparr>Options = opts, Indexes = Some []\<rparr>" meta' "[]"]
    by (cases meta') auto
  show ?thesis
    using assms unfolding dumpMetadata_def
    by (auto simp add: Let_def json_Marshal_def
        split: option.splits sum.splits bson.splits if_splits dest!: *)
qed

text \<open>Claim C10, amended: the theorem for a capped collection with the index on \<open>_id\<close>.\<close>

theorem dumpMetadata_json_shape_witness:
  "dumpMetadata capped_collection =
     (None, Some (JObject
        [(''options'', JValue (MarshalD [(''capped'', GoOther ''true'')])),
         (''indexes'', JArray [JValue (MarshalD [(''v'', GoOther ''1''), (''name'', GoOther ''_id_'')])])])) \<and>
   (\<exists>opts vs.
      JObject [(''options'', JValue (MarshalD [(''capped'', GoOther ''true'')])),
               (''indexes'', JArray [JValue (MarshalD [(''v'', GoOther ''1''), (''name'', GoOther ''_id_'')])])]
        = JObject ((if opts = GoNil then [] else [(''options'', JValue opts)]) @
                   [(''indexes'', JArray (map JValue vs))]) \<and>
      map (\<lambda>d. ConvertBSONValueToJSON capped_collection (BD d)) (indexDocs capped_collection)
        = map Inr vs)"
proof -
  have d: "dumpMetadata capped_collection =
     (None, Some (JObject
        [(''options'', JValue (MarshalD [(''capped'', GoOther ''true'')])),
         (''indexes'', JArray [JValue (MarshalD [(''v'', GoOther ''1''), (''name'', GoOther ''_id_'')])])]))"
    by (simp add: capped_collection_def healthy_env_def dumpMetadata_def json_Marshal_def)
  from dumpMetadata_json_shape [OF d] d show ?thesis by blast
qed

end
